theory Spec2Isabelle
  imports Complex_Main "HOL-Library.AList"
begin

section \<open>Outcomes of a call\<close>

text \<open>
  The optimizer of \<^verbatim>\<open>src/optimizer/optimizer.cpp\<close> has no structured errors: a call
  either returns, or stops at a failed assertion (\<^verbatim>\<open>assert\<close>, \<^verbatim>\<open>PL_ASSERT\<close>, modelled
  as checked), or reads through a null pointer, a missing table entry or past the end of
  a vector. The first five constructors are these abnormal ends. \<open>NoPlan\<close> and
  \<open>Cancelled\<close> are the two structured errors the specification names; no function of the
  source produces them, and they are here so that this can be stated.
\<close>

datatype error =
    AssertionFailed
  | NullDereference
  | InvalidGroup
  | IndexOutOfRange
  | MissingCost
  | NoPlan
  | Cancelled

text \<open>
  A call yields \<open>None\<close> when the recursion budget (fuel) is used up before it returns,
  \<open>Some (Inl e)\<close> when it stops at \<open>e\<close>, and \<open>Some (Inr x)\<close> when it returns \<open>x\<close>.
\<close>

type_synonym 'a result = "(error + 'a) option"

abbreviation ok :: "'a \<Rightarrow> 'a result" where
  "ok x \<equiv> Some (Inr x)"

abbreviation crash :: "error \<Rightarrow> 'a result" where
  "crash e \<equiv> Some (Inl e)"

fun bindR :: "'a result \<Rightarrow> ('a \<Rightarrow> 'b result) \<Rightarrow> 'b result" where
  "bindR None f = None"
| "bindR (Some (Inl e)) f = Some (Inl e)"
| "bindR (Some (Inr x)) f = f x"

text \<open>A \<^verbatim>\<open>for\<close> loop over a vector whose body updates the state and may stop the call.\<close>

primrec foldM :: "('a \<Rightarrow> 's \<Rightarrow> 's result) \<Rightarrow> 'a list \<Rightarrow> 's \<Rightarrow> 's result" where
  "foldM f [] s = ok s"
| "foldM f (x # xs) s = bindR (f x s) (foldM f xs)"

text \<open>A loop that collects one value per element (\<^verbatim>\<open>push_back\<close> in order).\<close>

primrec mapM :: "('a \<Rightarrow> 'b result) \<Rightarrow> 'a list \<Rightarrow> 'b list result" where
  "mapM f [] = ok []"
| "mapM f (x # xs) = bindR (f x) (\<lambda>y. bindR (mapM f xs) (\<lambda>ys. ok (y # ys)))"

section \<open>Data model\<close>

type_synonym group_id = nat

text \<open>A \<^verbatim>\<open>std::shared_ptr<GroupExpression>\<close>: the index of the object in the heap.\<close>

type_synonym gexpr_ref = nat

text \<open>
  Modelled from the spec: \<^verbatim>\<open>PropertySet\<close> (its header is not part of the sources), an
  unordered collection of atomic properties; \<^verbatim>\<open>a >= b\<close> is subsumption, here
  inclusion of \<open>b\<close> in \<open>a\<close>.
\<close>

type_synonym property_set = "nat set"

definition subsumes :: "property_set \<Rightarrow> property_set \<Rightarrow> bool" where
  "subsumes a b \<longleftrightarrow> b \<subseteq> a"

type_synonym stats = nat

datatype op_class = Logical | Physical

text \<open>
  Modelled from the spec: \<^verbatim>\<open>Operator\<close>, a kind name tagged logical or physical with
  kind-specific parameters and the input properties it requires of its children; a leaf
  is the placeholder of a pattern binding and carries the group it stands for.
\<close>

datatype operator =
    Operator (op_name: string) (op_class: op_class) (op_params: nat)
      (op_required_input: "property_set list")
  | LeafOperator (origin_group: group_id)

fun IsLogical :: "operator \<Rightarrow> bool" where
  "IsLogical (Operator n c p r) = (c = Logical)"
| "IsLogical (LeafOperator g) = False"

fun IsPhysical :: "operator \<Rightarrow> bool" where
  "IsPhysical (Operator n c p r) = (c = Physical)"
| "IsPhysical (LeafOperator g) = False"

fun RequiredInputProperties :: "operator \<Rightarrow> property_set list" where
  "RequiredInputProperties (Operator n c p r) = r"
| "RequiredInputProperties (LeafOperator g) = []"

text \<open>\<^verbatim>\<open>OpExpression\<close>: an operator with operator trees as children.\<close>

datatype op_expr = OpExpression (Op_of: operator) (Children: "op_expr list")

text \<open>
  Modelled from the spec: \<^verbatim>\<open>GroupExpression\<close>, an operator over child groups, the
  group that owns it (\<open>None\<close> is \<^verbatim>\<open>UNDEFINED_GROUP\<close>), and its cost table: for a
  property set, the cost, the statistics and the input properties asked of the children.
\<close>

record group_expression =
  gop :: operator
  child_groups :: "group_id list"
  gexpr_group :: "group_id option"
  lowest_cost_table :: "(property_set \<times> (real \<times> stats \<times> property_set list)) list"

text \<open>
  Modelled from the spec: \<^verbatim>\<open>Group\<close>, its expressions in insertion order, the two
  phase flags and the best expression with its cost for each required property set.
\<close>

record group =
  expressions :: "gexpr_ref list"
  has_explored :: bool
  has_implemented :: bool
  lowest_cost_expressions :: "(property_set \<times> (real \<times> gexpr_ref)) list"

text \<open>
  Modelled from the spec: \<^verbatim>\<open>Memo\<close>, the groups (a \<^verbatim>\<open>GroupID\<close> is an index) and the
  expressions registered for deduplication.
\<close>

record memo =
  group_expressions :: "gexpr_ref list"
  groups :: "group list"

text \<open>
  Modelled from the spec: \<^verbatim>\<open>Pattern\<close>, a leaf that matches any group or an operator
  kind over child patterns.
\<close>

datatype pattern = Leaf | Match string "pattern list"

text \<open>Modelled from the spec: \<^verbatim>\<open>Rule\<close>, a pattern, a guard and a transformation.\<close>

record rule =
  match_pattern :: pattern
  check :: "op_expr \<Rightarrow> bool"
  transform :: "op_expr \<Rightarrow> op_expr list"

text \<open>
  The \<^verbatim>\<open>Optimizer\<close> object: its memo and its two rule vectors, together with the heap
  of the group expressions that \<^verbatim>\<open>std::make_shared\<close> has allocated.
\<close>

record optimizer =
  heap :: "group_expression list"
  memo :: memo
  logical_transformation_rules :: "rule list"
  physical_implementation_rules :: "rule list"

text \<open>
  Reading through a pointer, and modelled from the spec: \<^verbatim>\<open>Memo::GetGroupByID\<close> and
  \<^verbatim>\<open>Group::GetBestExpression\<close> (neither is part of the sources). A pointer to no
  allocated object, a group id past the last group and a property set without a best
  expression (a null pointer in the source) give \<open>None\<close>; the callers say what follows.
\<close>

definition deref :: "optimizer \<Rightarrow> gexpr_ref \<Rightarrow> group_expression option" where
  "deref st r = (if r < length (heap st) then Some (heap st ! r) else None)"

definition GetGroupByID :: "memo \<Rightarrow> group_id \<Rightarrow> group option" where
  "GetGroupByID m g = (if g < length (groups m) then Some (groups m ! g) else None)"

definition GetBestExpression :: "group \<Rightarrow> property_set \<Rightarrow> gexpr_ref option" where
  "GetBestExpression g props = map_option snd (map_of (lowest_cost_expressions g) props)"

section \<open>Memo insertion\<close>

text \<open>
  Modelled from the spec: the parts of \<^verbatim>\<open>Memo::InsertExpression\<close>. Two group expressions
  are equal when their operators and their child groups are; the deduplication index is
  searched for an equal expression; \<^verbatim>\<open>SetGroupID\<close> writes the group into the object;
  a new group starts with one expression and both flags down; \<^verbatim>\<open>AddExpression\<close>
  registers an expression and appends it to a group.
\<close>

definition same_expression :: "group_expression \<Rightarrow> group_expression \<Rightarrow> bool" where
  "same_expression a b \<longleftrightarrow> gop a = gop b \<and> child_groups a = child_groups b"

definition find_expression :: "optimizer \<Rightarrow> group_expression \<Rightarrow> gexpr_ref option" where
  "find_expression st ge =
     List.find (\<lambda>r. case deref st r of None \<Rightarrow> False | Some e \<Rightarrow> same_expression e ge)
       (group_expressions (memo st))"

definition SetGroupID :: "gexpr_ref \<Rightarrow> group_id option \<Rightarrow> optimizer \<Rightarrow> optimizer" where
  "SetGroupID r g st = st\<lparr>heap := (heap st)[r := (heap st ! r)\<lparr>gexpr_group := g\<rparr>]\<rparr>"

definition new_group :: "gexpr_ref \<Rightarrow> group" where
  "new_group r = \<lparr>expressions = [r], has_explored = False, has_implemented = False,
     lowest_cost_expressions = []\<rparr>"

definition AddExpression :: "group_id \<Rightarrow> gexpr_ref \<Rightarrow> memo \<Rightarrow> memo" where
  "AddExpression g r m =
     m\<lparr>group_expressions := group_expressions m @ [r],
       groups := (groups m)[g := (groups m ! g)\<lparr>expressions := expressions (groups m ! g) @ [r]\<rparr>]\<rparr>"

text \<open>
  Modelled from the spec: \<^verbatim>\<open>Memo::InsertExpression\<close> (section 4.1; \<^verbatim>\<open>memo.cpp\<close> is not
  part of the sources). An expression equal to a registered one takes that one's group
  and is not new. Otherwise it is registered, in a fresh group when no target is given
  and in the target group when one is. A leaf placeholder is never stored: it takes the
  group it carries. The merge of two groups, which section 9 reports as absent from the
  source, is left out.
\<close>

definition InsertExpression ::
  "gexpr_ref \<Rightarrow> group_id option \<Rightarrow> optimizer \<Rightarrow> (bool \<times> optimizer) result" where
  "InsertExpression r target_group st =
     (case deref st r of
        None \<Rightarrow> crash NullDereference
      | Some ge \<Rightarrow>
          (case gop ge of
             LeafOperator g \<Rightarrow> ok (False, SetGroupID r (Some g) st)
           | Operator n c p q \<Rightarrow>
               (case find_expression st ge of
                  Some r' \<Rightarrow> ok (False, SetGroupID r (gexpr_group (heap st ! r')) st)
                | None \<Rightarrow>
                    (case target_group of
                       None \<Rightarrow>
                         ok (True, (SetGroupID r (Some (length (groups (memo st)))) st)
                           \<lparr>memo := (memo st)\<lparr>group_expressions := group_expressions (memo st) @ [r],
                              groups := groups (memo st) @ [new_group r]\<rparr>\<rparr>)
                     | Some g \<Rightarrow>
                         if g < length (groups (memo st))
                         then ok (True, (SetGroupID r (Some g) st)
                                \<lparr>memo := AddExpression g r (memo st)\<rparr>)
                         else crash InvalidGroup))))"

text \<open>\<^verbatim>\<open>std::make_shared<GroupExpression>\<close>: a new object at the end of the heap.\<close>

definition alloc :: "group_expression \<Rightarrow> optimizer \<Rightarrow> gexpr_ref \<times> optimizer" where
  "alloc ge st = (length (heap st), st\<lparr>heap := heap st @ [ge]\<rparr>)"

text \<open>
  \<^verbatim>\<open>MakeGroupExpression\<close>, \<^verbatim>\<open>MemoTransformedChildren\<close> (the loop over the children of
  its argument) and \<^verbatim>\<open>MemoTransformedExpression\<close>.
\<close>

fun MakeGroupExpression :: "op_expr \<Rightarrow> optimizer \<Rightarrow> (gexpr_ref \<times> optimizer) result"
and MemoTransformedChildren :: "op_expr list \<Rightarrow> optimizer \<Rightarrow> (group_id list \<times> optimizer) result"
and MemoTransformedExpression :: "op_expr \<Rightarrow> optimizer \<Rightarrow> (group_id \<times> optimizer) result"
where
  "MakeGroupExpression (OpExpression opr kids) st =
     bindR (MemoTransformedChildren kids st) (\<lambda>(cgs, s).
       ok (alloc \<lparr>gop = opr, child_groups = cgs, gexpr_group = None, lowest_cost_table = []\<rparr> s))"
| "MemoTransformedChildren [] st = ok ([], st)"
| "MemoTransformedChildren (child # rest) st =
     bindR (MemoTransformedExpression child st) (\<lambda>(g, s).
       bindR (MemoTransformedChildren rest s) (\<lambda>(gs, s'). ok (g # gs, s')))"
| "MemoTransformedExpression expr st =
     bindR (MakeGroupExpression expr st) (\<lambda>(r, s).
       bindR (InsertExpression r None s) (\<lambda>(new, s').
         case gexpr_group (heap s' ! r) of
           None \<Rightarrow> crash InvalidGroup
         | Some g \<Rightarrow> ok (g, s')))"

definition RecordTransformedExpression ::
  "op_expr \<Rightarrow> group_id option \<Rightarrow> optimizer \<Rightarrow> (bool \<times> gexpr_ref \<times> optimizer) result" where
  "RecordTransformedExpression expr target_group st =
     bindR (MakeGroupExpression expr st) (\<lambda>(r, s).
       bindR (InsertExpression r target_group s) (\<lambda>(new, s'). ok (new, r, s')))"

section \<open>Pattern binding\<close>

definition kind_matches :: "operator \<Rightarrow> string \<Rightarrow> bool" where
  "kind_matches opr k = (case opr of Operator n c p q \<Rightarrow> n = k | LeafOperator g \<Rightarrow> False)"

text \<open>
  Modelled from the spec: the binding iterator (section 4.3; \<^verbatim>\<open>binding.cpp\<close> is not part
  of the sources). A \<open>Match\<close> pattern binds an expression of the same kind and arity, with
  every combination of the bindings of the child patterns in the child groups; a \<open>Leaf\<close>
  binds a group and yields a placeholder carrying its id. Expressions are enumerated in
  insertion order, against the memo as it is when the iterator is built.
\<close>

fun expr_bindings :: "optimizer \<Rightarrow> pattern \<Rightarrow> gexpr_ref \<Rightarrow> op_expr list"
and group_bindings :: "optimizer \<Rightarrow> pattern \<Rightarrow> group_id \<Rightarrow> op_expr list"
and children_bindings :: "optimizer \<Rightarrow> pattern list \<Rightarrow> group_id list \<Rightarrow> op_expr list list"
where
  "expr_bindings st Leaf r = []"
| "expr_bindings st (Match k ps) r =
     (case deref st r of
        None \<Rightarrow> []
      | Some ge \<Rightarrow>
          if kind_matches (gop ge) k \<and> length ps = length (child_groups ge)
          then map (OpExpression (gop ge)) (product_lists (children_bindings st ps (child_groups ge)))
          else [])"
| "group_bindings st Leaf g = [OpExpression (LeafOperator g) []]"
| "group_bindings st (Match k ps) g =
     (case GetGroupByID (memo st) g of
        None \<Rightarrow> []
      | Some grp \<Rightarrow> concat (map (expr_bindings st (Match k ps)) (expressions grp)))"
| "children_bindings st [] gs = []"
| "children_bindings st (p # ps) [] = []"
| "children_bindings st (p # ps) (g # gs) = group_bindings st p g # children_bindings st ps gs"

section \<open>Rule application\<close>

text \<open>
  \<^verbatim>\<open>Optimizer::TransformExpression\<close>. The outer loop runs over the bindings of the rule's
  pattern at \<open>gexpr\<close>, the inner one over the plans the rule produces from a binding that
  passes its check; \<open>gexpr->GetGroupID()\<close> is the group of \<open>gexpr\<close>, which no insertion
  changes.
\<close>

definition TransformExpression ::
  "gexpr_ref \<Rightarrow> rule \<Rightarrow> optimizer \<Rightarrow> (gexpr_ref list \<times> optimizer) result" where
  "TransformExpression gexpr rl st =
     (case deref st gexpr of
        None \<Rightarrow> crash NullDereference
      | Some ge \<Rightarrow>
          foldM (\<lambda>plan (output_plans, s).
              if check rl plan
              then foldM (\<lambda>tplan (out, s1).
                       bindR (RecordTransformedExpression tplan (gexpr_group ge) s1)
                         (\<lambda>(new_expression, new_gexpr, s2).
                            ok (if new_expression then out @ [new_gexpr] else out, s2)))
                     (transform rl plan) (output_plans, s)
              else ok (output_plans, s))
            (expr_bindings st (match_pattern rl) gexpr) ([], st))"

section \<open>Exploration and implementation\<close>

text \<open>
  Modelled from the spec: \<^verbatim>\<open>Group::SetExplorationFlag\<close> and
  \<^verbatim>\<open>Group::SetImplementationFlag\<close>, reached through \<^verbatim>\<open>Memo::GetGroupByID\<close>.
\<close>

definition SetExplorationFlag :: "group_id \<Rightarrow> optimizer \<Rightarrow> optimizer result" where
  "SetExplorationFlag g st =
     (case GetGroupByID (memo st) g of
        None \<Rightarrow> crash InvalidGroup
      | Some grp \<Rightarrow>
          ok (st\<lparr>memo := (memo st)\<lparr>groups := (groups (memo st))[g := grp\<lparr>has_explored := True\<rparr>]\<rparr>\<rparr>))"

definition SetImplementationFlag :: "group_id \<Rightarrow> optimizer \<Rightarrow> optimizer result" where
  "SetImplementationFlag g st =
     (case GetGroupByID (memo st) g of
        None \<Rightarrow> crash InvalidGroup
      | Some grp \<Rightarrow>
          ok (st\<lparr>memo := (memo st)\<lparr>groups := (groups (memo st))[g := grp\<lparr>has_implemented := True\<rparr>]\<rparr>\<rparr>))"

text \<open>
  \<^verbatim>\<open>Optimizer::ExploreGroup\<close> and \<^verbatim>\<open>Optimizer::ExploreExpression\<close>. The recursion ends
  only if the rules stop producing new expressions, so each call spends one unit of fuel.
  The loop of \<^verbatim>\<open>ExploreGroup\<close> runs over the expressions the group has when the loop
  starts.
\<close>

fun ExploreGroup :: "nat \<Rightarrow> group_id \<Rightarrow> optimizer \<Rightarrow> optimizer result"
and ExploreExpression :: "nat \<Rightarrow> gexpr_ref \<Rightarrow> optimizer \<Rightarrow> optimizer result"
where
  "ExploreGroup 0 g st = None"
| "ExploreGroup (Suc n) g st =
     (case GetGroupByID (memo st) g of
        None \<Rightarrow> crash InvalidGroup
      | Some grp \<Rightarrow>
          bindR (foldM (\<lambda>gexpr s. ExploreExpression n gexpr s) (expressions grp) st)
            (SetExplorationFlag g))"
| "ExploreExpression 0 gexpr st = None"
| "ExploreExpression (Suc n) gexpr st =
     (case deref st gexpr of
        None \<Rightarrow> crash NullDereference
      | Some ge \<Rightarrow>
          if \<not> IsLogical (gop ge) then crash AssertionFailed
          else
            bindR (foldM (\<lambda>rl s.
                      bindR (TransformExpression gexpr rl s) (\<lambda>(candidates, s1).
                        foldM (\<lambda>candidate s2. ExploreExpression n candidate s2) candidates s1))
                    (logical_transformation_rules st) st)
              (foldM (\<lambda>child_id s.
                   case GetGroupByID (memo s) child_id of
                     None \<Rightarrow> crash InvalidGroup
                   | Some cg \<Rightarrow> if \<not> has_explored cg then ExploreGroup n child_id s else ok s)
                 (child_groups ge)))"

text \<open>\<^verbatim>\<open>Optimizer::ImplementGroup\<close>, as written in lines 255 to 262.\<close>

definition ImplementGroup :: "nat \<Rightarrow> group_id \<Rightarrow> optimizer \<Rightarrow> optimizer result" where
  "ImplementGroup fuel g st =
     (case GetGroupByID (memo st) g of
        None \<Rightarrow> crash InvalidGroup
      | Some grp \<Rightarrow>
          bindR (foldM (\<lambda>gexpr s.
                    case deref s gexpr of
                      None \<Rightarrow> crash NullDereference
                    | Some ge \<Rightarrow> if IsPhysical (gop ge) then ExploreExpression fuel gexpr s else ok s)
                  (expressions grp) st)
            (SetImplementationFlag g))"

text \<open>\<^verbatim>\<open>Optimizer::ImplementExpression\<close> (lines 264 to 278), which no function calls.\<close>

definition ImplementExpression :: "nat \<Rightarrow> gexpr_ref \<Rightarrow> optimizer \<Rightarrow> optimizer result" where
  "ImplementExpression fuel gexpr st =
     (case deref st gexpr of
        None \<Rightarrow> crash NullDereference
      | Some ge \<Rightarrow>
          bindR (foldM (\<lambda>rl s. bindR (TransformExpression gexpr rl s) (\<lambda>(new, s1). ok s1))
                  (physical_implementation_rules st) st)
            (foldM (\<lambda>child_id s.
                 case GetGroupByID (memo s) child_id of
                   None \<Rightarrow> crash InvalidGroup
                 | Some cg \<Rightarrow> if \<not> has_implemented cg then ImplementGroup fuel child_id s else ok s)
               (child_groups ge)))"

section \<open>Cost-based optimization\<close>

text \<open>
  Modelled from the spec: the operator's \<^verbatim>\<open>derive_stats_and_cost\<close> of section 6, taken
  as a parameter: from the output properties, the input properties and the statistics
  and costs of the children to the statistics and the cost of the expression.
\<close>

type_synonym cost_model =
  "operator \<Rightarrow> property_set \<Rightarrow> property_set list \<Rightarrow> stats list \<Rightarrow> real list \<Rightarrow> stats \<times> real"

text \<open>
  Modelled from the spec: \<^verbatim>\<open>GroupExpression::DeriveStatsAndCost\<close>, \<^verbatim>\<open>GetCost\<close> and
  \<^verbatim>\<open>GetStats\<close> (\<^verbatim>\<open>group_expression.cpp\<close> is not part of the sources): the cost, the
  statistics and the input properties are stored under the property set given first.
\<close>

definition DeriveStatsAndCost ::
  "cost_model \<Rightarrow> gexpr_ref \<Rightarrow> property_set \<Rightarrow> property_set list \<Rightarrow> stats list \<Rightarrow> real list
     \<Rightarrow> optimizer \<Rightarrow> optimizer" where
  "DeriveStatsAndCost cm r output_properties input_properties_list child_stats child_costs st =
     (let ge = heap st ! r;
          (sts, cost) = cm (gop ge) output_properties input_properties_list child_stats child_costs
      in st\<lparr>heap := (heap st)[r := ge\<lparr>lowest_cost_table :=
              AList.update output_properties (cost, sts, input_properties_list)
                (lowest_cost_table ge)\<rparr>]\<rparr>)"

definition GetCost :: "group_expression \<Rightarrow> property_set \<Rightarrow> real option" where
  "GetCost ge props = map_option fst (map_of (lowest_cost_table ge) props)"

definition GetStats :: "group_expression \<Rightarrow> property_set \<Rightarrow> stats option" where
  "GetStats ge props = map_option (\<lambda>e. fst (snd e)) (map_of (lowest_cost_table ge) props)"

text \<open>
  Modelled from the spec: \<^verbatim>\<open>Group::SetExpressionCost\<close> (\<^verbatim>\<open>group.cpp\<close> is not part of the
  sources): the binding for the required properties is set when there is none, and
  replaced when the new cost is strictly lower than the incumbent's.
\<close>

definition SetExpressionCost :: "gexpr_ref \<Rightarrow> real \<Rightarrow> property_set \<Rightarrow> group \<Rightarrow> group" where
  "SetExpressionCost r cost props grp =
     (case map_of (lowest_cost_expressions grp) props of
        None \<Rightarrow> grp\<lparr>lowest_cost_expressions :=
                  AList.update props (cost, r) (lowest_cost_expressions grp)\<rparr>
      | Some (c0, r0) \<Rightarrow>
          if cost < c0
          then grp\<lparr>lowest_cost_expressions :=
                 AList.update props (cost, r) (lowest_cost_expressions grp)\<rparr>
          else grp)"

text \<open>\<^verbatim>\<open>Optimizer::DeriveChildProperties\<close> (lines 211 to 216): both arguments unused.\<close>

definition DeriveChildProperties ::
  "gexpr_ref \<Rightarrow> property_set \<Rightarrow> (property_set \<times> property_set list) list" where
  "DeriveChildProperties gexpr requirements = []"

text \<open>
  \<^verbatim>\<open>Optimizer::OptimizeGroup\<close>, \<^verbatim>\<open>Optimizer::OptimizeExpression\<close> and, as
  \<open>OptimizePair\<close>, one round of the loop of lines 166 to 208 for the pair at
  \<^verbatim>\<open>pair_offset\<close>. Each of the three spends one unit of fuel.
\<close>

fun OptimizeGroup ::
  "cost_model \<Rightarrow> nat \<Rightarrow> group_id \<Rightarrow> property_set \<Rightarrow> optimizer \<Rightarrow> optimizer result"
and OptimizeExpression ::
  "cost_model \<Rightarrow> nat \<Rightarrow> gexpr_ref \<Rightarrow> property_set \<Rightarrow> optimizer \<Rightarrow> optimizer result"
and OptimizePair ::
  "cost_model \<Rightarrow> nat \<Rightarrow> gexpr_ref \<Rightarrow> property_set \<Rightarrow> property_set \<times> property_set list
     \<Rightarrow> optimizer \<Rightarrow> optimizer result"
where
  "OptimizeGroup cm 0 g requirements st = None"
| "OptimizeGroup cm (Suc n) g requirements st =
     (case GetGroupByID (memo st) g of
        None \<Rightarrow> crash InvalidGroup
      | Some grp \<Rightarrow>
          if GetBestExpression grp requirements \<noteq> None then ok st
          else foldM (\<lambda>e s.
                   case deref s e of
                     None \<Rightarrow> crash NullDereference
                   | Some ge \<Rightarrow>
                       if IsPhysical (gop ge) then OptimizeExpression cm n e requirements s
                       else ok s)
                 (expressions grp) st)"
| "OptimizeExpression cm 0 gexpr requirements st = None"
| "OptimizeExpression cm (Suc n) gexpr requirements st =
     (case deref st gexpr of
        None \<Rightarrow> crash NullDereference
      | Some ge \<Rightarrow>
          if \<not> IsPhysical (gop ge) then crash AssertionFailed
          else foldM (\<lambda>pair s. OptimizePair cm n gexpr requirements pair s)
                 (DeriveChildProperties gexpr requirements) st)"
| "OptimizePair cm 0 gexpr requirements pair st = None"
| "OptimizePair cm (Suc n) gexpr requirements (output_properties, input_properties_list) st =
     (case deref st gexpr of
        None \<Rightarrow> crash NullDereference
      | Some ge \<Rightarrow>
          bindR (foldM (\<lambda>i (best_child_stats, best_child_costs, s).
                    if \<not> i < length input_properties_list then crash IndexOutOfRange
                    else
                      bindR (OptimizeGroup cm n (child_groups ge ! i) (input_properties_list ! i) s)
                        (\<lambda>s1.
                           case GetGroupByID (memo s1) (child_groups ge ! i) of
                             None \<Rightarrow> crash InvalidGroup
                           | Some cg \<Rightarrow>
                               (case GetBestExpression cg (input_properties_list ! i) of
                                  None \<Rightarrow> crash AssertionFailed
                                | Some b \<Rightarrow>
                                    (case deref s1 b of
                                       None \<Rightarrow> crash NullDereference
                                     | Some be \<Rightarrow>
                                         (case (GetStats be (input_properties_list ! i),
                                                GetCost be (input_properties_list ! i)) of
                                            (Some sts, Some c) \<Rightarrow>
                                              ok (best_child_stats @ [sts], best_child_costs @ [c], s1)
                                          | _ \<Rightarrow> crash MissingCost)))))
                  [0..<length (child_groups ge)] ([], [], st))
            (\<lambda>(best_child_stats, best_child_costs, s2).
               let s3 = DeriveStatsAndCost cm gexpr output_properties input_properties_list
                          best_child_stats best_child_costs s2
               in if subsumes output_properties requirements
                  then (case deref s3 gexpr of
                          None \<Rightarrow> crash NullDereference
                        | Some ge3 \<Rightarrow>
                            (case gexpr_group ge3 of
                               None \<Rightarrow> crash InvalidGroup
                             | Some gid \<Rightarrow>
                                 (case GetGroupByID (memo s3) gid of
                                    None \<Rightarrow> crash InvalidGroup
                                  | Some grp \<Rightarrow>
                                      (case GetCost ge3 output_properties of
                                         None \<Rightarrow> crash MissingCost
                                       | Some c \<Rightarrow>
                                           ok (s3\<lparr>memo := (memo s3)\<lparr>groups := (groups (memo s3))
                                                 [gid := SetExpressionCost gexpr c requirements grp]\<rparr>\<rparr>)))))
                  else ok s3))"

section \<open>Extraction\<close>

text \<open>
  \<^verbatim>\<open>Optimizer::ChooseBestPlan\<close> (lines 109 to 134). The best expression is read
  through its pointer with no test, so a group without one for the requirements ends the
  call at a null pointer; the memo is only read.
\<close>

fun ChooseBestPlan :: "nat \<Rightarrow> group_id \<Rightarrow> property_set \<Rightarrow> optimizer \<Rightarrow> op_expr result" where
  "ChooseBestPlan 0 g requirements st = None"
| "ChooseBestPlan (Suc n) g requirements st =
     (case GetGroupByID (memo st) g of
        None \<Rightarrow> crash InvalidGroup
      | Some grp \<Rightarrow>
          (case GetBestExpression grp requirements of
             None \<Rightarrow> crash NullDereference
           | Some gexpr \<Rightarrow>
               (case deref st gexpr of
                  None \<Rightarrow> crash NullDereference
                | Some ge \<Rightarrow>
                    (let child_groups = child_groups ge;
                         required_input_props =
                           (if RequiredInputProperties (gop ge) = []
                            then replicate (length child_groups) {}
                            else RequiredInputProperties (gop ge))
                     in bindR (mapM (\<lambda>i.
                                  if \<not> i < length required_input_props then crash IndexOutOfRange
                                  else ChooseBestPlan n (child_groups ! i) (required_input_props ! i) st)
                                [0..<length child_groups])
                          (\<lambda>children. ok (OpExpression (gop ge) children))))))"

text \<open>
  The requirement under which \<^verbatim>\<open>ChooseBestPlan\<close> extracts child \<open>i\<close> of an
  expression: entry \<open>i\<close> of the operator's \<^verbatim>\<open>RequiredInputProperties()\<close>, or the empty
  property set when the operator gives none.
\<close>

definition child_requirement :: "operator \<Rightarrow> nat \<Rightarrow> property_set" where
  "child_requirement opr i =
     (if RequiredInputProperties opr = [] then {} else RequiredInputProperties opr ! i)"

section \<open>The driver\<close>

text \<open>
  \<^verbatim>\<open>Optimizer::InsertQueryTree\<close>; \<open>convert\<close> stands for \<^verbatim>\<open>ConvertQueryToOpExpression\<close>,
  which is not part of the sources.
\<close>

definition InsertQueryTree ::
  "('stmt \<Rightarrow> op_expr) \<Rightarrow> 'stmt \<Rightarrow> optimizer \<Rightarrow> (gexpr_ref \<times> optimizer) result" where
  "InsertQueryTree convert tree st =
     bindR (RecordTransformedExpression (convert tree) None st) (\<lambda>(new, gexpr, s).
       if new then ok (gexpr, s) else crash AssertionFailed)"

text \<open>
  \<^verbatim>\<open>Optimizer::BuildPelotonPlanTree\<close> (lines 53 to 87). \<open>props\<close> stands for the
  \<^verbatim>\<open>QueryPropertyExtractor\<close> and \<open>to_plan\<close> for \<^verbatim>\<open>ConvertOpExpressionToPlan\<close>, both
  outside the sources. The result is the plan pointer, \<open>None\<close> for \<^verbatim>\<open>nullptr\<close>, and the
  optimizer after the call. \<^verbatim>\<open>ChooseBestPlan\<close> builds its result with
  \<^verbatim>\<open>std::make_shared\<close>, so the test of line 80 never finds a null pointer.
\<close>

definition BuildPelotonPlanTree ::
  "('stmt \<Rightarrow> op_expr) \<Rightarrow> ('stmt \<Rightarrow> property_set) \<Rightarrow> (op_expr \<Rightarrow> 'plan) \<Rightarrow> cost_model \<Rightarrow> nat
     \<Rightarrow> 'stmt list \<Rightarrow> optimizer \<Rightarrow> ('plan option \<times> optimizer) result" where
  "BuildPelotonPlanTree convert props to_plan cm fuel parse_tree_list st =
     (if length parse_tree_list = 0 then ok (None, st)
      else
        let parse_tree = parse_tree_list ! 0
        in bindR (InsertQueryTree convert parse_tree st) (\<lambda>(gexpr, s0).
             case gexpr_group (heap s0 ! gexpr) of
               None \<Rightarrow> crash InvalidGroup
             | Some root_id \<Rightarrow>
                 (let properties = props parse_tree
                  in bindR (ExploreGroup fuel root_id s0) (\<lambda>s1.
                       bindR (ImplementGroup fuel root_id s1) (\<lambda>s2.
                         bindR (OptimizeExpression cm fuel gexpr properties s2) (\<lambda>s3.
                           bindR (ChooseBestPlan fuel root_id properties s3) (\<lambda>best_plan.
                             ok (Some (to_plan best_plan), s3))))))))"

section \<open>Extraction in the words of the specification\<close>

text \<open>
  The input properties recorded on an expression for a requirement, and extraction as
  section 4.8 of the specification words it: a missing best expression is the error
  \<open>NoPlan\<close>, and each child group is extracted under the input properties recorded on the
  winning expression.
\<close>

definition recorded_input_properties ::
  "group_expression \<Rightarrow> property_set \<Rightarrow> property_set list option" where
  "recorded_input_properties ge props =
     map_option (\<lambda>e. snd (snd e)) (map_of (lowest_cost_table ge) props)"

fun choose_best_spec :: "nat \<Rightarrow> group_id \<Rightarrow> property_set \<Rightarrow> optimizer \<Rightarrow> op_expr result" where
  "choose_best_spec 0 g required st = None"
| "choose_best_spec (Suc n) g required st =
     (case GetGroupByID (memo st) g of
        None \<Rightarrow> crash InvalidGroup
      | Some grp \<Rightarrow>
          (case GetBestExpression grp required of
             None \<Rightarrow> crash NoPlan
           | Some gexpr \<Rightarrow>
               (case deref st gexpr of
                  None \<Rightarrow> crash NullDereference
                | Some ge \<Rightarrow>
                    (case recorded_input_properties ge required of
                       None \<Rightarrow> crash MissingCost
                     | Some inputs \<Rightarrow>
                         bindR (mapM (\<lambda>i.
                                  if \<not> i < length inputs then crash IndexOutOfRange
                                  else choose_best_spec n (child_groups ge ! i) (inputs ! i) st)
                                [0..<length (child_groups ge)])
                           (\<lambda>children. ok (OpExpression (gop ge) children))))))"

section \<open>Rule application in the words of the specification\<close>

text \<open>
  Section 4.4 of the specification: the transformed operator trees of a rule at an
  expression are what the rule's transformation returns for each binding of its pattern
  that passes its check, in the order of the bindings.
\<close>

definition transformed_trees :: "rule \<Rightarrow> optimizer \<Rightarrow> gexpr_ref \<Rightarrow> op_expr list" where
  "transformed_trees rl st gexpr =
     concat (map (transform rl) (filter (check rl) (expr_bindings st (match_pattern rl) gexpr)))"

text \<open>
  Each tree is recorded into the memo with the given target group, one after the other;
  the result keeps, for each tree, what the insert reported (whether the expression was
  new) and the group expression that was made for it.
\<close>

primrec record_all ::
  "group_id option \<Rightarrow> op_expr list \<Rightarrow> optimizer \<Rightarrow> ((bool \<times> gexpr_ref) list \<times> optimizer) result" where
  "record_all target [] st = ok ([], st)"
| "record_all target (tree # trees) st =
     bindR (RecordTransformedExpression tree target st) (\<lambda>(is_new, r, s).
       bindR (record_all target trees s) (\<lambda>(reports, s'). ok ((is_new, r) # reports, s')))"

text \<open>
  An operator tree is recorded in the memo under group \<open>h\<close>: a placeholder stands for the
  group it carries; any other tree has a registered expression of group \<open>h\<close> with its
  operator, whose child groups record its children.
\<close>

fun recorded :: "optimizer \<Rightarrow> op_expr \<Rightarrow> group_id \<Rightarrow> bool" where
  "recorded st (OpExpression opr kids) h =
     (case opr of
        LeafOperator g0 \<Rightarrow> h = g0
      | Operator n c p q \<Rightarrow>
          (\<exists>r\<in>set (group_expressions (memo st)).
             r < length (heap st) \<and> gop (heap st ! r) = opr \<and>
             gexpr_group (heap st ! r) = Some h \<and>
             list_all2 (recorded st) kids (child_groups (heap st ! r))))"

section \<open>Invariants of the memo\<close>

text \<open>
  Every expression registered in the memo is an allocated object that has been given its
  group.
\<close>

definition registered_ok :: "optimizer \<Rightarrow> bool" where
  "registered_ok st \<longleftrightarrow>
     (\<forall>r\<in>set (group_expressions (memo st)). r < length (heap st) \<and> gexpr_group (heap st ! r) \<noteq> None)"

text \<open>
  From \<open>st\<close> to \<open>st'\<close> no allocated object is dropped, and every registered expression
  stays registered and unchanged.
\<close>

definition stable :: "optimizer \<Rightarrow> optimizer \<Rightarrow> bool" where
  "stable st st' \<longleftrightarrow>
     length (heap st) \<le> length (heap st') \<and>
     set (group_expressions (memo st)) \<subseteq> set (group_expressions (memo st')) \<and>
     (\<forall>r\<in>set (group_expressions (memo st)). heap st' ! r = heap st ! r)"

text \<open>
  From \<open>st\<close> to \<open>st'\<close> the allocated objects are kept as they are, no group is removed
  and group \<open>g\<close> keeps its expressions.
\<close>

definition keeps :: "group_id \<Rightarrow> optimizer \<Rightarrow> optimizer \<Rightarrow> bool" where
  "keeps g st st' \<longleftrightarrow>
     registered_ok st' \<and> stable st st' \<and>
     (\<forall>r<length (heap st). heap st' ! r = heap st ! r) \<and>
     length (groups (memo st)) \<le> length (groups (memo st')) \<and>
     expressions (groups (memo st') ! g) = expressions (groups (memo st) ! g)"

text \<open>
  What one insertion of a fresh object \<open>r\<close>, one recording of a tree and the recording
  of a list of trees with target group \<open>g\<close> leave behind.
\<close>

definition insert_post ::
  "group_id \<Rightarrow> group_id option \<Rightarrow> gexpr_ref \<Rightarrow> optimizer \<Rightarrow> bool \<Rightarrow> optimizer \<Rightarrow> bool" where
  "insert_post g target r st new st' \<longleftrightarrow>
     registered_ok st' \<and> stable st st' \<and> length (heap st') = length (heap st) \<and>
     (\<forall>x<length (heap st). x \<noteq> r \<longrightarrow> heap st' ! x = heap st ! x) \<and>
     gop (heap st' ! r) = gop (heap st ! r) \<and>
     child_groups (heap st' ! r) = child_groups (heap st ! r) \<and>
     length (groups (memo st)) \<le> length (groups (memo st')) \<and>
     expressions (groups (memo st') ! g) =
       expressions (groups (memo st) ! g) @ (if new \<and> target = Some g then [r] else []) \<and>
     (\<exists>h. gexpr_group (heap st' ! r) = Some h \<and>
          (case gop (heap st ! r) of
             LeafOperator g0 \<Rightarrow> h = g0
           | Operator n c p q \<Rightarrow>
               (\<exists>r0\<in>set (group_expressions (memo st')).
                  r0 < length (heap st') \<and> gop (heap st' ! r0) = gop (heap st ! r) \<and>
                  child_groups (heap st' ! r0) = child_groups (heap st ! r) \<and>
                  gexpr_group (heap st' ! r0) = Some h))) \<and>
     (new \<and> target = Some g \<longrightarrow> gexpr_group (heap st' ! r) = Some g)"

definition record_post ::
  "group_id \<Rightarrow> op_expr \<Rightarrow> optimizer \<Rightarrow> bool \<Rightarrow> gexpr_ref \<Rightarrow> optimizer \<Rightarrow> bool" where
  "record_post g expr st new r st' \<longleftrightarrow>
     registered_ok st' \<and> stable st st' \<and>
     (\<forall>x<length (heap st). heap st' ! x = heap st ! x) \<and>
     length (groups (memo st)) \<le> length (groups (memo st')) \<and>
     expressions (groups (memo st') ! g) =
       expressions (groups (memo st) ! g) @ (if new then [r] else []) \<and>
     length (heap st) \<le> r \<and> r < length (heap st') \<and>
     gop (heap st' ! r) = Op_of expr \<and>
     (new \<longrightarrow> gexpr_group (heap st' ! r) = Some g) \<and>
     (\<exists>h. recorded st' expr h)"

definition record_all_post ::
  "group_id \<Rightarrow> op_expr list \<Rightarrow> optimizer \<Rightarrow> (bool \<times> gexpr_ref) list \<Rightarrow> optimizer \<Rightarrow> bool" where
  "record_all_post g trees st reports st' \<longleftrightarrow>
     length reports = length trees \<and> registered_ok st' \<and> stable st st' \<and>
     (\<forall>x<length (heap st). heap st' ! x = heap st ! x) \<and>
     length (groups (memo st)) \<le> length (groups (memo st')) \<and>
     expressions (groups (memo st') ! g) =
       expressions (groups (memo st) ! g) @ map snd (filter fst reports) \<and>
     (\<forall>i<length trees.
        length (heap st) \<le> snd (reports ! i) \<and> snd (reports ! i) < length (heap st') \<and>
        gop (heap st' ! snd (reports ! i)) = Op_of (trees ! i) \<and>
        (fst (reports ! i) \<longrightarrow> gexpr_group (heap st' ! snd (reports ! i)) = Some g)) \<and>
     (\<forall>t\<in>set trees. \<exists>h. recorded st' t h)"

text \<open>From \<open>st\<close> to \<open>st'\<close> every allocated object keeps its operator.\<close>

definition same_operators :: "optimizer \<Rightarrow> optimizer \<Rightarrow> bool" where
  "same_operators st st' \<longleftrightarrow>
     length (heap st) \<le> length (heap st') \<and>
     (\<forall>r<length (heap st). gop (heap st' ! r) = gop (heap st ! r))"

section \<open>Example optimizers\<close>

definition get_op :: operator where
  "get_op = Operator ''LogicalGet'' Logical 7 []"

definition scan_op :: operator where
  "scan_op = Operator ''PhysicalScan'' Physical 7 []"

text \<open>A rule in the manner of \<^verbatim>\<open>GetToScan\<close>: a logical get becomes a physical scan.\<close>

definition get_to_scan :: rule where
  "get_to_scan = \<lparr>match_pattern = Match ''LogicalGet'' [], check = (\<lambda>plan. True),
     transform = (\<lambda>plan. [OpExpression (Operator ''PhysicalScan'' Physical (op_params (Op_of plan)) []) []])\<rparr>"

definition empty_optimizer :: optimizer where
  "empty_optimizer = \<lparr>heap = [], memo = \<lparr>group_expressions = [], groups = []\<rparr>,
     logical_transformation_rules = [], physical_implementation_rules = [get_to_scan]\<rparr>"

text \<open>The optimizer after the query tree of a single get has been inserted.\<close>

definition get_group :: group where
  "get_group = \<lparr>expressions = [0], has_explored = False, has_implemented = False,
     lowest_cost_expressions = []\<rparr>"

definition get_gexpr :: group_expression where
  "get_gexpr = \<lparr>gop = get_op, child_groups = [], gexpr_group = Some 0, lowest_cost_table = []\<rparr>"

definition scan_gexpr :: group_expression where
  "scan_gexpr = \<lparr>gop = scan_op, child_groups = [], gexpr_group = Some 0, lowest_cost_table = []\<rparr>"

definition get_optimizer :: optimizer where
  "get_optimizer = \<lparr>heap = [get_gexpr], memo = \<lparr>group_expressions = [0], groups = [get_group]\<rparr>,
     logical_transformation_rules = [], physical_implementation_rules = [get_to_scan]\<rparr>"

text \<open>The same optimizer once the scan has been added to the group of the get.\<close>

definition scan_optimizer :: optimizer where
  "scan_optimizer = \<lparr>heap = [get_gexpr, scan_gexpr],
     memo = \<lparr>group_expressions = [0, 1], groups = [get_group\<lparr>expressions := [0, 1]\<rparr>]\<rparr>,
     logical_transformation_rules = [], physical_implementation_rules = [get_to_scan]\<rparr>"

definition unit_cost :: cost_model where
  "unit_cost opr output_properties input_properties_list child_stats child_costs =
     (0, 1 + sum_list child_costs)"

text \<open>The same optimizer once the scan has been costed and registered as best.\<close>

definition costed_scan_optimizer :: optimizer where
  "costed_scan_optimizer = \<lparr>heap = [get_gexpr, scan_gexpr\<lparr>lowest_cost_table := [({}, (1, 0, []))]\<rparr>],
     memo = \<lparr>group_expressions = [0, 1],
       groups = [get_group\<lparr>expressions := [0, 1], lowest_cost_expressions := [({}, (1, 1))]\<rparr>]\<rparr>,
     logical_transformation_rules = [], physical_implementation_rules = [get_to_scan]\<rparr>"

definition project_op :: operator where
  "project_op = Operator ''PhysicalProject'' Physical 0 []"

definition seq_scan_op :: operator where
  "seq_scan_op = Operator ''PhysicalSeqScan'' Physical 0 []"

definition index_scan_op :: operator where
  "index_scan_op = Operator ''PhysicalIndexScan'' Physical 0 []"

text \<open>
  A memo as optimization with a working property derivation would leave it: group 0
  holds a projection over group 1, costed for the empty requirement with the input
  property \<open>{1}\<close> asked of its child; group 1 holds a sequential scan, best for the empty
  requirement, and an index scan, best for \<open>{1}\<close>.
\<close>

definition sorted_optimizer :: optimizer where
  "sorted_optimizer =
     \<lparr>heap = [\<lparr>gop = project_op, child_groups = [1], gexpr_group = Some 0,
                lowest_cost_table = [({}, (3, 0, [{1}]))]\<rparr>,
              \<lparr>gop = seq_scan_op, child_groups = [], gexpr_group = Some 1,
                lowest_cost_table = [({}, (1, 0, []))]\<rparr>,
              \<lparr>gop = index_scan_op, child_groups = [], gexpr_group = Some 1,
                lowest_cost_table = [({1}, (2, 0, []))]\<rparr>],
      memo = \<lparr>group_expressions = [0, 1, 2],
               groups = [\<lparr>expressions = [0], has_explored = True, has_implemented = True,
                           lowest_cost_expressions = [({}, (3, 0))]\<rparr>,
                         \<lparr>expressions = [1, 2], has_explored = True, has_implemented = True,
                           lowest_cost_expressions = [({}, (1, 1)), ({1}, (2, 2))]\<rparr>]\<rparr>,
      logical_transformation_rules = [], physical_implementation_rules = []\<rparr>"

section \<open>Basic facts\<close>

lemma bindR_ok_iff: "bindR r f = ok y \<longleftrightarrow> (\<exists>x. r = ok x \<and> f x = ok y)"
proof (cases r)
  case None
  then show ?thesis by simp
next
  case (Some a)
  then show ?thesis by (cases a) auto
qed

lemma foldM_invariant:
  assumes step: "\<And>x s s'. P s \<Longrightarrow> f x s = ok s' \<Longrightarrow> P s'"
  shows "P s \<Longrightarrow> foldM f xs s = ok s' \<Longrightarrow> P s'"
proof (induction xs arbitrary: s)
  case Nil
  then show ?case by simp
next
  case (Cons x xs)
  from Cons.prems(2) obtain s1 where a: "f x s = ok s1" and b: "foldM f xs s1 = ok s'"
    by (auto simp: bindR_ok_iff)
  from step [OF Cons.prems(1) a] have "P s1" .
  from Cons.IH [OF this b] show ?case .
qed

lemma foldM_all_unchanged:
  "\<forall>x\<in>set xs. f x s = ok s \<Longrightarrow> foldM f xs s = ok s"
  by (induction xs) auto

lemma OptimizeExpression_unchanged:
  "OptimizeExpression cm n gexpr requirements st = ok st' \<Longrightarrow> st' = st"
  by (cases n) (auto simp: DeriveChildProperties_def split: option.splits if_splits)

section \<open>The driver on its input list\<close>

text \<open>
  Claim C9. On an empty statement list \<^verbatim>\<open>BuildPelotonPlanTree\<close> returns the null plan at
  once, whatever the fuel: nothing is inserted into the memo and no phase runs, so the
  optimizer is returned as it was.
\<close>

theorem BuildPelotonPlanTree_empty:
  "BuildPelotonPlanTree convert props to_plan cm fuel [] st = ok (None, st)"
  by (simp add: BuildPelotonPlanTree_def)

text \<open>
  On a non-empty statement list only statement 0 is read: two lists with the same first
  statement give the same outcome from the same optimizer, whatever follows the first
  statement.
\<close>

lemma BuildPelotonPlanTree_first_statement_only:
  "BuildPelotonPlanTree convert props to_plan cm fuel (stmt # rest) st =
   BuildPelotonPlanTree convert props to_plan cm fuel (stmt # rest') st"
  by (simp add: BuildPelotonPlanTree_def)

text \<open>
  With a single logical get as its statement and checked assertions, the driver inserts
  and explores the tree, sets the implemented flag and stops at the assertion of
  \<^verbatim>\<open>OptimizeExpression\<close>, which it calls on the logical root expression.
\<close>

lemma BuildPelotonPlanTree_single_get:
  "BuildPelotonPlanTree (\<lambda>q. OpExpression get_op []) (\<lambda>q. {}) (\<lambda>plan. plan) unit_cost 3 [q]
     empty_optimizer = crash AssertionFailed"
  by (simp add: BuildPelotonPlanTree_def InsertQueryTree_def RecordTransformedExpression_def
      empty_optimizer_def alloc_def InsertExpression_def deref_def get_op_def
      find_expression_def SetGroupID_def new_group_def GetGroupByID_def numeral_3_eq_3
      SetExplorationFlag_def SetImplementationFlag_def ImplementGroup_def)

section \<open>Optimization with the stub of DeriveChildProperties\<close>

text \<open>
  Claim C2. \<^verbatim>\<open>DeriveChildProperties\<close> returns the empty list for every expression and
  every requirement, and \<^verbatim>\<open>OptimizeExpression\<close> on a physical expression returns with
  the optimizer unchanged, so every group keeps the best-expression bindings it had.
\<close>

theorem OptimizeExpression_stub_noop:
  assumes "deref st gexpr = Some ge" and "IsPhysical (gop ge)"
  shows "DeriveChildProperties gexpr requirements = [] \<and>
         OptimizeExpression cm (Suc n) gexpr requirements st = ok st"
  using assms by (simp add: DeriveChildProperties_def)

theorem OptimizeExpression_stub_noop_witness:
  "deref scan_optimizer 1 = Some scan_gexpr \<and> IsPhysical (gop scan_gexpr) \<and>
   DeriveChildProperties 1 {} = [] \<and>
   OptimizeExpression unit_cost (Suc 0) 1 {} scan_optimizer = ok scan_optimizer"
proof -
  have d: "deref scan_optimizer 1 = Some scan_gexpr"
    by (simp add: deref_def scan_optimizer_def)
  have p: "IsPhysical (gop scan_gexpr)"
    by (simp add: scan_gexpr_def scan_op_def)
  show ?thesis
    using d p OptimizeExpression_stub_noop [OF d p, of "{}" unit_cost 0] by simp
qed

section \<open>Registration of a best expression\<close>

lemma OptimizeGroup_unchanged:
  "OptimizeGroup cm n g requirements st = ok st' \<Longrightarrow> st' = st"
proof (cases n)
  case 0
  then show "OptimizeGroup cm n g requirements st = ok st' \<Longrightarrow> st' = st" by simp
next
  case (Suc m)
  assume run: "OptimizeGroup cm n g requirements st = ok st'"
  show "st' = st"
  proof (cases "GetGroupByID (memo st) g")
    case None
    with run Suc show ?thesis by simp
  next
    case (Some grp)
    show ?thesis
    proof (cases "GetBestExpression grp requirements \<noteq> None")
      case True
      with run Suc Some show ?thesis by auto
    next
      case False
      with run Suc Some have
        f: "foldM (\<lambda>e s. case deref s e of None \<Rightarrow> crash NullDereference
              | Some ge \<Rightarrow> if IsPhysical (gop ge) then OptimizeExpression cm m e requirements s
                           else ok s) (expressions grp) st = ok st'"
        by simp
      show ?thesis
        by (rule foldM_invariant [where P = "\<lambda>s. s = st", OF _ refl f])
           (auto split: option.splits if_splits dest: OptimizeExpression_unchanged)
    qed
  qed
qed

lemma map_of_SetExpressionCost:
  "map_of (lowest_cost_expressions (SetExpressionCost r c R grp)) props =
     (if props = R \<and> (\<forall>c0 r0. map_of (lowest_cost_expressions grp) R = Some (c0, r0) \<longrightarrow> c < c0)
      then Some (c, r) else map_of (lowest_cost_expressions grp) props)"
  by (auto simp: SetExpressionCost_def update_conv' split: option.splits)

lemma children_loop_unchanged:
  assumes "foldM (\<lambda>i (best_child_stats, best_child_costs, s).
                    if \<not> i < length ins then crash IndexOutOfRange
                    else
                      bindR (OptimizeGroup cm n (cgs ! i) (ins ! i) s)
                        (\<lambda>s1. K i best_child_stats best_child_costs s1))
             idxs (a, b, st) = ok (a', b', st')"
    and "\<And>i x y s r. K i x y s = ok r \<Longrightarrow> snd (snd r) = s"
  shows "st' = st"
proof -
  have "(\<lambda>t. snd (snd t) = st) (a', b', st')"
    by (rule foldM_invariant [where P = "\<lambda>t. snd (snd t) = st", OF _ _ assms(1)])
       (auto simp: bindR_ok_iff split: if_splits dest!: OptimizeGroup_unchanged assms(2))
  then show ?thesis by simp
qed

text \<open>
  Claim C5. In one round of the loop of \<^verbatim>\<open>OptimizeExpression\<close>, for the pair of output
  properties and input properties at hand: whenever the round changes the best binding
  of some group \<open>g\<close> for some property set, the output properties subsume the
  requirements, the property set is the requirements, \<open>g\<close> is the group of the expression,
  the new binding is the expression with the cost derived for it under the output
  properties, and that cost is strictly lower than the cost of the binding it replaces,
  if there was one.
\<close>

theorem OptimizePair_registers_subsumed_cheaper:
  assumes run: "OptimizePair cm (Suc n) gexpr requirements (output_properties, input_properties_list) st = ok st'"
    and changed: "map_of (lowest_cost_expressions (groups (memo st') ! g)) props \<noteq>
                  map_of (lowest_cost_expressions (groups (memo st) ! g)) props"
  shows "subsumes output_properties requirements \<and> props = requirements \<and>
         gexpr_group (heap st ! gexpr) = Some g \<and>
         (\<exists>c. map_of (lowest_cost_expressions (groups (memo st') ! g)) requirements = Some (c, gexpr) \<and>
              GetCost (heap st' ! gexpr) output_properties = Some c \<and>
              (\<forall>c0 r0. map_of (lowest_cost_expressions (groups (memo st) ! g)) requirements = Some (c0, r0)
                 \<longrightarrow> c < c0))"
proof -
  from run obtain ge where ge: "deref st gexpr = Some ge"
    by (auto split: option.splits)
  then have valid: "gexpr < length (heap st)" and ge_eq: "ge = heap st ! gexpr"
    by (auto simp: deref_def split: if_splits)
  from run ge obtain bs bc s2 where
    loop: "foldM (\<lambda>i (best_child_stats, best_child_costs, s).
                    if \<not> i < length input_properties_list then crash IndexOutOfRange
                    else
                      bindR (OptimizeGroup cm n (child_groups ge ! i) (input_properties_list ! i) s)
                        (\<lambda>s1.
                           case GetGroupByID (memo s1) (child_groups ge ! i) of
                             None \<Rightarrow> crash InvalidGroup
                           | Some cg \<Rightarrow>
                               (case GetBestExpression cg (input_properties_list ! i) of
                                  None \<Rightarrow> crash AssertionFailed
                                | Some b \<Rightarrow>
                                    (case deref s1 b of
                                       None \<Rightarrow> crash NullDereference
                                     | Some be \<Rightarrow>
                                         (case (GetStats be (input_properties_list ! i),
                                                GetCost be (input_properties_list ! i)) of
                                            (Some sts, Some c) \<Rightarrow>
                                              ok (best_child_stats @ [sts], best_child_costs @ [c], s1)
                                          | _ \<Rightarrow> crash MissingCost)))))
                  [0..<length (child_groups ge)] ([], [], st) = ok (bs, bc, s2)"
    and rest: "(let s3 = DeriveStatsAndCost cm gexpr output_properties input_properties_list bs bc s2
               in if subsumes output_properties requirements
                  then (case deref s3 gexpr of
                          None \<Rightarrow> crash NullDereference
                        | Some ge3 \<Rightarrow>
                            (case gexpr_group ge3 of
                               None \<Rightarrow> crash InvalidGroup
                             | Some gid \<Rightarrow>
                                 (case GetGroupByID (memo s3) gid of
                                    None \<Rightarrow> crash InvalidGroup
                                  | Some grp \<Rightarrow>
                                      (case GetCost ge3 output_properties of
                                         None \<Rightarrow> crash MissingCost
                                       | Some c \<Rightarrow>
                                           ok (s3\<lparr>memo := (memo s3)\<lparr>groups := (groups (memo s3))
                                                 [gid := SetExpressionCost gexpr c requirements grp]\<rparr>\<rparr>)))))
                  else ok s3) = ok st'"
    by (auto simp: bindR_ok_iff)
  have s2: "s2 = st"
    by (rule children_loop_unchanged [OF loop])
       (auto split: option.splits prod.splits)
  define s3 where "s3 = DeriveStatsAndCost cm gexpr output_properties input_properties_list bs bc st"
  have memo3: "memo s3 = memo st"
    by (simp add: s3_def DeriveStatsAndCost_def Let_def split: prod.splits)
  have group3: "gexpr_group (heap s3 ! gexpr) = gexpr_group (heap st ! gexpr)"
    using valid by (simp add: s3_def DeriveStatsAndCost_def Let_def split: prod.splits)
  have cost3: "GetCost (heap s3 ! gexpr) output_properties \<noteq> None"
    using valid
    by (simp add: s3_def DeriveStatsAndCost_def Let_def GetCost_def update_conv' split: prod.splits)
  have len3: "length (heap s3) = length (heap st)"
    by (simp add: s3_def DeriveStatsAndCost_def Let_def split: prod.splits)
  show ?thesis
  proof (cases "subsumes output_properties requirements")
    case False
    with rest s2 have "st' = s3" by (simp add: s3_def Let_def)
    with memo3 changed show ?thesis by simp
  next
    case True
    with rest s2 obtain gid grp c where
      gid: "gexpr_group (heap s3 ! gexpr) = Some gid"
      and grp: "GetGroupByID (memo s3) gid = Some grp"
      and c: "GetCost (heap s3 ! gexpr) output_properties = Some c"
      and st': "st' = s3\<lparr>memo := (memo s3)\<lparr>groups := (groups (memo s3))
                       [gid := SetExpressionCost gexpr c requirements grp]\<rparr>\<rparr>"
      using valid len3
      by (auto simp: s3_def [symmetric] Let_def deref_def split: option.splits if_splits)
    from grp memo3 have gid_lt: "gid < length (groups (memo st))"
      and grp_eq: "grp = groups (memo st) ! gid"
      by (auto simp: GetGroupByID_def split: if_splits)
    have g_eq: "g = gid"
    proof (rule ccontr)
      assume "g \<noteq> gid"
      then have "groups (memo st') ! g = groups (memo st) ! g"
        by (simp add: st' memo3)
      with changed show False by simp
    qed
    have new: "groups (memo st') ! g = SetExpressionCost gexpr c requirements (groups (memo st) ! g)"
      using gid_lt by (simp add: st' memo3 g_eq grp_eq)
    have heap': "heap st' = heap s3" by (simp add: st')
    from changed new have
      cond: "props = requirements \<and>
             (\<forall>c0 r0. map_of (lowest_cost_expressions (groups (memo st) ! g)) requirements = Some (c0, r0)
                \<longrightarrow> c < c0)"
      by (auto simp: map_of_SetExpressionCost split: if_splits)
    with new have "map_of (lowest_cost_expressions (groups (memo st') ! g)) requirements = Some (c, gexpr)"
      by (simp add: map_of_SetExpressionCost)
    with True cond gid group3 g_eq c heap' show ?thesis by auto
  qed
qed


theorem OptimizePair_registers_subsumed_cheaper_witness:
  "OptimizePair unit_cost (Suc 0) 1 {} ({}, []) scan_optimizer = ok costed_scan_optimizer \<and>
   map_of (lowest_cost_expressions (groups (memo costed_scan_optimizer) ! 0)) {} \<noteq>
     map_of (lowest_cost_expressions (groups (memo scan_optimizer) ! 0)) {} \<and>
   subsumes {} {} \<and> gexpr_group (heap scan_optimizer ! 1) = Some 0 \<and>
   (\<exists>c. map_of (lowest_cost_expressions (groups (memo costed_scan_optimizer) ! 0)) {} = Some (c, 1) \<and>
        GetCost (heap costed_scan_optimizer ! 1) {} = Some c \<and>
        (\<forall>c0 r0. map_of (lowest_cost_expressions (groups (memo scan_optimizer) ! 0)) {} = Some (c0, r0)
           \<longrightarrow> c < c0))"
proof -
  have run: "OptimizePair unit_cost (Suc 0) 1 {} ({}, []) scan_optimizer = ok costed_scan_optimizer"
    by (simp add: scan_optimizer_def costed_scan_optimizer_def deref_def DeriveStatsAndCost_def
        unit_cost_def subsumes_def GetGroupByID_def GetCost_def SetExpressionCost_def
        get_gexpr_def scan_gexpr_def get_group_def)
  have changed: "map_of (lowest_cost_expressions (groups (memo costed_scan_optimizer) ! 0)) ({}::nat set) \<noteq>
     map_of (lowest_cost_expressions (groups (memo scan_optimizer) ! 0)) {}"
    by (simp add: scan_optimizer_def costed_scan_optimizer_def get_group_def)
  from OptimizePair_registers_subsumed_cheaper [OF run changed] run changed
  show ?thesis by blast
qed


section \<open>ImplementGroup\<close>

text \<open>
  On a group without a physical expression, which is every group that insertion and
  exploration with logical rules build, \<^verbatim>\<open>ImplementGroup\<close> only sets the flag.
\<close>

lemma ImplementGroup_without_physical:
  assumes "GetGroupByID (memo st) g = Some grp"
    and "\<forall>r\<in>set (expressions grp). \<exists>ge. deref st r = Some ge \<and> \<not> IsPhysical (gop ge)"
  shows "ImplementGroup fuel g st =
           ok (st\<lparr>memo := (memo st)\<lparr>groups := (groups (memo st))[g := grp\<lparr>has_implemented := True\<rparr>]\<rparr>\<rparr>)"
proof -
  have "foldM (\<lambda>gexpr s.
                 case deref s gexpr of
                   None \<Rightarrow> crash NullDereference
                 | Some ge \<Rightarrow> if IsPhysical (gop ge) then ExploreExpression fuel gexpr s else ok s)
          (expressions grp) st = ok st"
    using assms(2) by (intro foldM_all_unchanged) auto
  with assms(1) show ?thesis
    by (simp add: ImplementGroup_def SetImplementationFlag_def)
qed

text \<open>
  Claim C1. \<^verbatim>\<open>ImplementGroup\<close> on the group of a single logical get, with the rule
  \<open>get_to_scan\<close> registered as a physical-implementation rule, sets the implemented flag
  and applies no rule: the group still holds the get alone. \<^verbatim>\<open>ImplementExpression\<close>,
  which would add the scan, is not called.
\<close>

theorem ImplementGroup_applies_no_rule:
  "ImplementGroup 1 0 get_optimizer =
     ok (get_optimizer\<lparr>memo := \<lparr>group_expressions = [0],
           groups = [get_group\<lparr>has_implemented := True\<rparr>]\<rparr>\<rparr>) \<and>
   ImplementExpression 1 0 get_optimizer = ok scan_optimizer"
  by (simp add: ImplementGroup_def ImplementExpression_def TransformExpression_def
      RecordTransformedExpression_def SetImplementationFlag_def GetGroupByID_def
      scan_optimizer_def get_optimizer_def alloc_def InsertExpression_def deref_def
      get_op_def scan_op_def find_expression_def SetGroupID_def get_gexpr_def
      scan_gexpr_def get_group_def get_to_scan_def kind_matches_def AddExpression_def
      same_expression_def)

text \<open>
  Claim C7. On a group that holds a physical expression, \<^verbatim>\<open>ImplementGroup\<close> calls
  \<^verbatim>\<open>ExploreExpression\<close> on that expression and the assertion that the operator is logical
  fails; \<^verbatim>\<open>ExploreGroup\<close> does not skip the physical expression either and fails at the
  same assertion.
\<close>

theorem ImplementGroup_explores_physical:
  "ImplementGroup 1 0 scan_optimizer = crash AssertionFailed \<and>
   ExploreGroup 2 0 scan_optimizer = crash AssertionFailed"
  by (simp add: ImplementGroup_def GetGroupByID_def scan_optimizer_def deref_def
      get_gexpr_def scan_gexpr_def get_op_def scan_op_def get_group_def numeral_2_eq_2)

section \<open>Extraction without a best expression\<close>

text \<open>
  Claim C3. \<^verbatim>\<open>ChooseBestPlan\<close> on a group with no best expression for the requirements
  reads the child groups through the null pointer that \<^verbatim>\<open>GetBestExpression\<close> returned:
  the call ends there, with no \<open>NoPlan\<close> error.
\<close>

theorem ChooseBestPlan_null_best:
  "ChooseBestPlan 1 0 {} scan_optimizer = crash NullDereference"
  by (simp add: GetGroupByID_def GetBestExpression_def scan_optimizer_def get_group_def)

section \<open>Extraction of the children\<close>

lemma mapM_ok_nth:
  "mapM f xs = ok ys \<Longrightarrow> length ys = length xs \<and> (\<forall>i<length xs. f (xs ! i) = ok (ys ! i))"
proof (induction xs arbitrary: ys)
  case Nil
  then show ?case by simp
next
  case (Cons x xs)
  from Cons.prems obtain y ys' where y: "f x = ok y" and r: "mapM f xs = ok ys'" and e: "ys = y # ys'"
    by (auto simp: bindR_ok_iff)
  from Cons.IH [OF r] have "length ys' = length xs" and "\<forall>i<length xs. f (xs ! i) = ok (ys' ! i)"
    by auto
  with y e show ?case by (auto simp: nth_Cons split: nat.splits)
qed

text \<open>
  Claim C4, as amended. When \<^verbatim>\<open>ChooseBestPlan\<close> returns a plan for a group and its
  requirements, the plan carries the operator of the group's best expression for them,
  and its child \<open>i\<close> is what \<^verbatim>\<open>ChooseBestPlan\<close> returns for child group \<open>i\<close> under
  entry \<open>i\<close> of the operator's required input properties, or under the empty property
  set when the operator gives none.
\<close>

theorem ChooseBestPlan_children_under_operator_requirements:
  assumes "ChooseBestPlan (Suc n) g requirements st = ok plan"
  shows "\<exists>grp gexpr ge.
           GetGroupByID (memo st) g = Some grp \<and> GetBestExpression grp requirements = Some gexpr \<and>
           deref st gexpr = Some ge \<and> Op_of plan = gop ge \<and>
           length (Children plan) = length (child_groups ge) \<and>
           (\<forall>i<length (child_groups ge).
              ChooseBestPlan n (child_groups ge ! i) (child_requirement (gop ge) i) st =
                ok (Children plan ! i))"
proof -
  from assms obtain grp gexpr ge where
    grp: "GetGroupByID (memo st) g = Some grp"
    and best: "GetBestExpression grp requirements = Some gexpr"
    and ge: "deref st gexpr = Some ge"
    by (auto split: option.splits)
  define rip where "rip = (if RequiredInputProperties (gop ge) = []
                            then replicate (length (child_groups ge)) {}
                            else RequiredInputProperties (gop ge))"
  from assms grp best ge obtain children where
    kids: "mapM (\<lambda>i. if \<not> i < length rip then crash IndexOutOfRange
                     else ChooseBestPlan n (child_groups ge ! i) (rip ! i) st)
             [0..<length (child_groups ge)] = ok children"
    and plan: "plan = OpExpression (gop ge) children"
    unfolding rip_def by (auto simp: bindR_ok_iff Let_def)
  from mapM_ok_nth [OF kids] have len: "length children = length (child_groups ge)"
    and each: "\<forall>i<length (child_groups ge).
                 (if \<not> i < length rip then crash IndexOutOfRange
                  else ChooseBestPlan n (child_groups ge ! i) (rip ! i) st) = ok (children ! i)"
    by auto
  have "ChooseBestPlan n (child_groups ge ! i) (child_requirement (gop ge) i) st = ok (children ! i)"
    if i: "i < length (child_groups ge)" for i
  proof -
    from each i have lt: "i < length rip"
      and r: "ChooseBestPlan n (child_groups ge ! i) (rip ! i) st = ok (children ! i)"
      by (auto split: if_splits)
    have "rip ! i = child_requirement (gop ge) i"
      using i by (simp add: rip_def child_requirement_def)
    with r show ?thesis by simp
  qed
  with grp best ge len plan show ?thesis by auto
qed

lemmas sorted_eval = sorted_optimizer_def GetGroupByID_def GetBestExpression_def deref_def
  project_op_def seq_scan_op_def index_scan_op_def recorded_input_properties_def
  numeral_2_eq_2 child_requirement_def

text \<open>
  Claim C4, as stated, fails: the projection was costed with the input property \<open>{1}\<close>
  recorded for its child, under which the child group's best expression is the index
  scan, but \<^verbatim>\<open>ChooseBestPlan\<close> extracts the child under the empty property set and
  returns the sequential scan.
\<close>

theorem ChooseBestPlan_recorded_inputs_counterexample:
  "recorded_input_properties (heap sorted_optimizer ! 0) {} = Some [{1}] \<and>
   ChooseBestPlan 2 0 {} sorted_optimizer = ok (OpExpression project_op [OpExpression seq_scan_op []]) \<and>
   choose_best_spec 2 0 {} sorted_optimizer = ok (OpExpression project_op [OpExpression index_scan_op []]) \<and>
   ChooseBestPlan 2 0 {} sorted_optimizer \<noteq> choose_best_spec 2 0 {} sorted_optimizer"
  by (simp add: sorted_eval)

theorem ChooseBestPlan_children_under_operator_requirements_witness:
  "ChooseBestPlan (Suc 1) 0 {} sorted_optimizer = ok (OpExpression project_op [OpExpression seq_scan_op []]) \<and>
   (\<exists>grp gexpr ge.
      GetGroupByID (memo sorted_optimizer) 0 = Some grp \<and> GetBestExpression grp {} = Some gexpr \<and>
      deref sorted_optimizer gexpr = Some ge \<and>
      Op_of (OpExpression project_op [OpExpression seq_scan_op []]) = gop ge \<and>
      length (Children (OpExpression project_op [OpExpression seq_scan_op []])) = length (child_groups ge) \<and>
      (\<forall>i<length (child_groups ge).
         ChooseBestPlan 1 (child_groups ge ! i) (child_requirement (gop ge) i) sorted_optimizer =
           ok (Children (OpExpression project_op [OpExpression seq_scan_op []]) ! i)))"
proof -
  have run: "ChooseBestPlan (Suc 1) 0 {} sorted_optimizer =
               ok (OpExpression project_op [OpExpression seq_scan_op []])"
    by (simp add: sorted_eval)
  from ChooseBestPlan_children_under_operator_requirements [OF run] run
  show ?thesis by blast
qed

section \<open>No cancellation\<close>

lemma bindR_crash_iff:
  "bindR r f = crash e \<longleftrightarrow> r = crash e \<or> (\<exists>x. r = ok x \<and> f x = crash e)"
proof (cases r)
  case None
  then show ?thesis by simp
next
  case (Some a)
  then show ?thesis by (cases a) auto
qed

lemma foldM_crashD: "foldM f xs s = crash e \<Longrightarrow> \<exists>x s'. f x s' = crash e"
  by (induction xs arbitrary: s) (auto simp: bindR_crash_iff)

lemma mapM_crashD: "mapM f xs = crash e \<Longrightarrow> \<exists>x. f x = crash e"
  by (induction xs) (auto simp: bindR_crash_iff)

lemma bindR_not_cancelled:
  "r \<noteq> crash Cancelled \<Longrightarrow> (\<And>x. f x \<noteq> crash Cancelled) \<Longrightarrow> bindR r f \<noteq> crash Cancelled"
  by (auto simp: bindR_crash_iff)

lemma foldM_not_cancelled:
  "(\<And>x s. f x s \<noteq> crash Cancelled) \<Longrightarrow> foldM f xs s \<noteq> crash Cancelled"
  by (auto dest!: foldM_crashD)

lemma InsertExpression_not_cancelled:
  "InsertExpression r target_group st \<noteq> crash Cancelled"
  by (simp add: InsertExpression_def split: option.splits operator.splits)

lemma MakeGroupExpression_not_cancelled:
  "MakeGroupExpression expr st \<noteq> crash Cancelled"
  "MemoTransformedChildren exprs st \<noteq> crash Cancelled"
  "MemoTransformedExpression expr st \<noteq> crash Cancelled"
proof (induction expr st and exprs st and expr st
    rule: MakeGroupExpression_MemoTransformedChildren_MemoTransformedExpression.induct)
  case (1 opr kids st)
  then show ?case
    by (auto simp: bindR_crash_iff)
next
  case (2 st)
  show ?case by simp
next
  case (3 child rest st)
  then show ?case
    by (auto simp: bindR_crash_iff)
next
  case (4 expr st)
  then show ?case
    by (auto simp: bindR_crash_iff InsertExpression_not_cancelled split: option.splits)
qed

lemma RecordTransformedExpression_not_cancelled:
  "RecordTransformedExpression expr target_group st \<noteq> crash Cancelled"
  by (auto simp: RecordTransformedExpression_def bindR_crash_iff
      MakeGroupExpression_not_cancelled InsertExpression_not_cancelled)

lemma TransformExpression_not_cancelled:
  "TransformExpression gexpr rl st \<noteq> crash Cancelled"
  by (auto simp: TransformExpression_def bindR_crash_iff
      RecordTransformedExpression_not_cancelled split: option.splits if_splits
      dest!: foldM_crashD)

lemma SetFlag_not_cancelled:
  "SetExplorationFlag g st \<noteq> crash Cancelled"
  "SetImplementationFlag g st \<noteq> crash Cancelled"
  by (simp_all add: SetExplorationFlag_def SetImplementationFlag_def split: option.splits)

lemma Explore_not_cancelled:
  "ExploreGroup n g st \<noteq> crash Cancelled \<and> ExploreExpression n gexpr st \<noteq> crash Cancelled"
proof (induction n arbitrary: g gexpr st)
  case 0
  show ?case by simp
next
  case (Suc n)
  have grp: "ExploreGroup (Suc n) g st \<noteq> crash Cancelled"
    using Suc.IH
    by (auto simp: bindR_crash_iff SetFlag_not_cancelled split: option.splits dest!: foldM_crashD)
  have ex: "ExploreExpression (Suc n) gexpr st \<noteq> crash Cancelled"
    using Suc.IH
    by (auto simp: bindR_crash_iff TransformExpression_not_cancelled
        split: option.splits if_splits dest!: foldM_crashD)
  from grp ex show ?case by simp
qed

lemma ImplementGroup_not_cancelled: "ImplementGroup n g st \<noteq> crash Cancelled"
  using Explore_not_cancelled
  by (auto simp: ImplementGroup_def bindR_crash_iff SetFlag_not_cancelled
      split: option.splits if_splits dest!: foldM_crashD)

lemma Optimize_not_cancelled:
  "OptimizeGroup cm n g requirements st \<noteq> crash Cancelled \<and>
   OptimizeExpression cm n gexpr requirements st \<noteq> crash Cancelled \<and>
   OptimizePair cm n gexpr requirements pair st \<noteq> crash Cancelled"
proof (induction n arbitrary: g gexpr requirements pair st)
  case 0
  show ?case by simp
next
  case (Suc n)
  have a: "OptimizeGroup cm (Suc n) g requirements st \<noteq> crash Cancelled"
    using Suc.IH
    by (auto split: option.splits if_splits dest!: foldM_crashD)
  have b: "OptimizeExpression cm (Suc n) gexpr requirements st \<noteq> crash Cancelled"
    using Suc.IH
    by (auto split: option.splits if_splits dest!: foldM_crashD)
  have c: "OptimizePair cm (Suc n) gexpr requirements pair st \<noteq> crash Cancelled"
  proof (cases pair)
    case (Pair output_properties input_properties_list)
    show ?thesis
      using Suc.IH unfolding Pair
      by (simp add: foldM_not_cancelled bindR_not_cancelled Let_def
          split: option.split prod.split)
  qed
  from a b c show ?case by simp
qed

lemma ChooseBestPlan_not_cancelled:
  "ChooseBestPlan n g requirements st \<noteq> crash Cancelled"
proof (induction n arbitrary: g requirements)
  case 0
  show ?case by simp
next
  case (Suc n)
  then show ?case
    by (auto simp: bindR_crash_iff Let_def split: option.splits if_splits dest!: mapM_crashD)
qed

text \<open>
  Claim C8, as amended. The source has no cancellation token: \<^verbatim>\<open>ExploreExpression\<close>,
  \<^verbatim>\<open>OptimizeExpression\<close>, \<^verbatim>\<open>ChooseBestPlan\<close> and the driver are functions of their
  arguments and of the optimizer alone, and none of them ever ends with \<open>Cancelled\<close>,
  whatever the fuel, the arguments and the optimizer.
\<close>

theorem no_cancellation:
  "ExploreExpression n gexpr st \<noteq> crash Cancelled \<and>
   OptimizeExpression cm n gexpr requirements st \<noteq> crash Cancelled \<and>
   ChooseBestPlan n g requirements st \<noteq> crash Cancelled \<and>
   BuildPelotonPlanTree convert props to_plan cm n parse_tree_list st \<noteq> crash Cancelled"
proof -
  have "BuildPelotonPlanTree convert props to_plan cm n parse_tree_list st \<noteq> crash Cancelled"
    using Explore_not_cancelled Optimize_not_cancelled
    by (auto simp: BuildPelotonPlanTree_def InsertQueryTree_def bindR_crash_iff Let_def
        RecordTransformedExpression_not_cancelled ImplementGroup_not_cancelled
        ChooseBestPlan_not_cancelled
        split: option.splits if_splits)
  with Explore_not_cancelled Optimize_not_cancelled ChooseBestPlan_not_cancelled
  show ?thesis by blast
qed

text \<open>
  Claim C8, as stated, fails: there is no token for a caller to trip, and on these
  inputs the three functions run to their normal end, the memo kept, where the claim
  has them return \<open>Cancelled\<close> and discard the memo once cancellation is requested.
\<close>

theorem cancellation_counterexample:
  "ExploreExpression 1 0 get_optimizer = ok get_optimizer \<and>
   OptimizeExpression unit_cost 1 1 {} scan_optimizer = ok scan_optimizer \<and>
   ChooseBestPlan 1 0 {} costed_scan_optimizer = ok (OpExpression scan_op [])"
  by (simp add: get_optimizer_def scan_optimizer_def costed_scan_optimizer_def deref_def
      get_gexpr_def scan_gexpr_def get_op_def scan_op_def get_group_def
      DeriveChildProperties_def GetGroupByID_def GetBestExpression_def)

section \<open>Rule application records into the group of the source\<close>

lemma stable_refl: "stable st st"
  by (simp add: stable_def)

lemma stable_trans: "stable a b \<Longrightarrow> stable b c \<Longrightarrow> stable a c"
  by (auto simp: stable_def)

lemma recorded_mono:
  "stable st st' \<Longrightarrow> recorded st t h \<Longrightarrow> recorded st' t h"
proof (induction t arbitrary: h)
  case (OpExpression opr kids)
  show ?case
  proof (cases opr)
    case (LeafOperator g0)
    with OpExpression.prems show ?thesis by simp
  next
    case (Operator n c p q)
    with OpExpression.prems obtain r where
      r: "r \<in> set (group_expressions (memo st))" "r < length (heap st)"
        "gop (heap st ! r) = opr" "gexpr_group (heap st ! r) = Some h"
        "list_all2 (recorded st) kids (child_groups (heap st ! r))"
      by auto
    from r(5) have "list_all2 (recorded st') kids (child_groups (heap st ! r))"
      by (rule list.rel_mono_strong) (rule OpExpression.IH [OF _ OpExpression.prems(1)])
    with r OpExpression.prems(1) Operator show ?thesis
      by (auto simp: stable_def intro!: bexI [of _ r])
  qed
qed

lemma keeps_refl: "registered_ok st \<Longrightarrow> keeps g st st"
  by (simp add: keeps_def stable_refl)

lemma keeps_trans:
  assumes ab: "keeps g a b" and bc: "keeps g b c"
  shows "keeps g a c"
proof -
  from ab bc have 1: "stable a c"
    by (auto simp: keeps_def intro: stable_trans)
  from ab have le: "length (heap a) \<le> length (heap b)"
    by (simp add: keeps_def stable_def)
  have 2: "\<forall>r<length (heap a). heap c ! r = heap a ! r"
  proof (intro allI impI)
    fix r assume "r < length (heap a)"
    with le ab bc show "heap c ! r = heap a ! r" by (simp add: keeps_def)
  qed
  from ab bc 1 2 show ?thesis by (simp add: keeps_def)
qed

lemma find_expressionD:
  "find_expression st ge = Some r' \<Longrightarrow>
     r' \<in> set (group_expressions (memo st)) \<and> r' < length (heap st) \<and>
     same_expression (heap st ! r') ge"
  by (auto simp: find_expression_def find_Some_iff deref_def split: option.splits if_splits)

lemma unregistered:
  "registered_ok st \<Longrightarrow> gexpr_group (heap st ! r) = None \<Longrightarrow>
     r \<notin> set (group_expressions (memo st))"
  by (auto simp: registered_ok_def)

lemma InsertExpression_effect:
  assumes ok: "registered_ok st" and r: "r < length (heap st)"
    and fresh: "gexpr_group (heap st ! r) = None"
    and g: "g < length (groups (memo st))" and t: "target = None \<or> target = Some g"
  shows "\<exists>new st'. InsertExpression r target st = ok (new, st') \<and> insert_post g target r st new st'"
proof -
  from r have d: "deref st r = Some (heap st ! r)" by (simp add: deref_def)
  from unregistered [OF ok fresh] have nr: "r \<notin> set (group_expressions (memo st))" .
  have reg: "\<forall>x\<in>set (group_expressions (memo st)). x \<noteq> r \<and> x < length (heap st) \<and>
               gexpr_group (heap st ! x) \<noteq> None"
    using ok nr by (auto simp: registered_ok_def)
  show ?thesis
  proof (cases "gop (heap st ! r)")
    case (LeafOperator h)
    define st' where "st' = SetGroupID r (Some h) st"
    have run: "InsertExpression r target st = ok (False, st')"
      using d LeafOperator by (simp add: InsertExpression_def st'_def)
    have heap': "heap st' = (heap st)[r := (heap st ! r)\<lparr>gexpr_group := Some h\<rparr>]"
      and memo': "memo st' = memo st"
      by (simp_all add: st'_def SetGroupID_def)
    have 1: "registered_ok st'" using reg
      by (auto simp: registered_ok_def heap' memo')
    have 2: "stable st st'" using reg
      by (auto simp: stable_def heap' memo')
    have "insert_post g target r st False st'"
      unfolding insert_post_def using r LeafOperator
      by (intro conjI; simp add: 1 2 heap' memo')
    with run show ?thesis by blast
  next
    case (Operator n c p q)
    show ?thesis
    proof (cases "find_expression st (heap st ! r)")
      case (Some r')
      from find_expressionD [OF Some] have r': "r' \<in> set (group_expressions (memo st))"
        "r' < length (heap st)" "gop (heap st ! r') = gop (heap st ! r)"
        "child_groups (heap st ! r') = child_groups (heap st ! r)"
        by (auto simp: same_expression_def)
      with reg obtain h where h: "gexpr_group (heap st ! r') = Some h" and ne: "r' \<noteq> r"
        by auto
      define st' where "st' = SetGroupID r (Some h) st"
      have run: "InsertExpression r target st = ok (False, st')"
        using d Operator Some h by (simp add: InsertExpression_def st'_def)
      have heap': "heap st' = (heap st)[r := (heap st ! r)\<lparr>gexpr_group := Some h\<rparr>]"
        and memo': "memo st' = memo st"
        by (simp_all add: st'_def SetGroupID_def)
      have 1: "registered_ok st'" using reg
        by (auto simp: registered_ok_def heap' memo')
      have 2: "stable st st'" using reg
        by (auto simp: stable_def heap' memo')
      have 3: "\<exists>r0\<in>set (group_expressions (memo st')).
                 r0 < length (heap st') \<and> gop (heap st' ! r0) = gop (heap st ! r) \<and>
                 child_groups (heap st' ! r0) = child_groups (heap st ! r) \<and>
                 gexpr_group (heap st' ! r0) = Some h"
        using r' ne h by (intro bexI [of _ r']) (simp_all add: heap' memo')
      have "insert_post g target r st False st'"
        unfolding insert_post_def using r Operator 3
        by (intro conjI; simp add: 1 2 heap' memo')
      with run show ?thesis by blast
    next
      case None
      from t show ?thesis
      proof
        assume tn: "target = None"
        define h where "h = length (groups (memo st))"
        define st' where "st' = (SetGroupID r (Some h) st)
                           \<lparr>memo := (memo st)\<lparr>group_expressions := group_expressions (memo st) @ [r],
                              groups := groups (memo st) @ [new_group r]\<rparr>\<rparr>"
        have run: "InsertExpression r target st = ok (True, st')"
          using d Operator None tn by (simp add: InsertExpression_def st'_def h_def)
        have heap': "heap st' = (heap st)[r := (heap st ! r)\<lparr>gexpr_group := Some h\<rparr>]"
          and idx': "group_expressions (memo st') = group_expressions (memo st) @ [r]"
          and grp': "groups (memo st') = groups (memo st) @ [new_group r]"
          by (simp_all add: st'_def SetGroupID_def)
        have 1: "registered_ok st'" using reg r
          by (auto simp: registered_ok_def heap' idx')
        have 2: "stable st st'" using reg
          by (auto simp: stable_def heap' idx')
        have 3: "\<exists>r0\<in>set (group_expressions (memo st')).
                   r0 < length (heap st') \<and> gop (heap st' ! r0) = gop (heap st ! r) \<and>
                   child_groups (heap st' ! r0) = child_groups (heap st ! r) \<and>
                   gexpr_group (heap st' ! r0) = Some h"
          using r by (intro bexI [of _ r]) (simp_all add: heap' idx')
        have "insert_post g target r st True st'"
          unfolding insert_post_def using r g Operator 3 tn
          by (intro conjI; simp add: 1 2 heap' grp' nth_append)
        with run show ?thesis by blast
      next
        assume ts: "target = Some g"
        define st' where "st' = (SetGroupID r (Some g) st)\<lparr>memo := AddExpression g r (memo st)\<rparr>"
        have run: "InsertExpression r target st = ok (True, st')"
          using d Operator None ts g by (simp add: InsertExpression_def st'_def)
        have heap': "heap st' = (heap st)[r := (heap st ! r)\<lparr>gexpr_group := Some g\<rparr>]"
          and idx': "group_expressions (memo st') = group_expressions (memo st) @ [r]"
          and grp': "groups (memo st') = (groups (memo st))
                       [g := (groups (memo st) ! g)\<lparr>expressions := expressions (groups (memo st) ! g) @ [r]\<rparr>]"
          by (simp_all add: st'_def SetGroupID_def AddExpression_def)
        have 1: "registered_ok st'" using reg r
          by (auto simp: registered_ok_def heap' idx')
        have 2: "stable st st'" using reg
          by (auto simp: stable_def heap' idx')
        have 3: "\<exists>r0\<in>set (group_expressions (memo st')).
                   r0 < length (heap st') \<and> gop (heap st' ! r0) = gop (heap st ! r) \<and>
                   child_groups (heap st' ! r0) = child_groups (heap st ! r) \<and>
                   gexpr_group (heap st' ! r0) = Some g"
          using r by (intro bexI [of _ r]) (simp_all add: heap' idx')
        have "insert_post g target r st True st'"
          unfolding insert_post_def using r g Operator 3 ts
          by (intro conjI; simp add: 1 2 heap' grp')
        with run show ?thesis by blast
      qed
    qed
  qed
qed

lemma alloc_keeps:
  assumes ok: "registered_ok s" and a: "alloc ge s = (r, s')"
  shows "keeps g s s' \<and> r = length (heap s) \<and> length (heap s') = Suc (length (heap s)) \<and>
         heap s' ! r = ge"
proof -
  from a have r: "r = length (heap s)" and heap': "heap s' = heap s @ [ge]"
    and memo': "memo s' = memo s"
    by (auto simp: alloc_def)
  from ok have reg: "\<forall>x\<in>set (group_expressions (memo s)). x < length (heap s) \<and>
                       gexpr_group (heap s ! x) \<noteq> None"
    by (simp add: registered_ok_def)
  have 1: "registered_ok s'" using reg
    by (auto simp: registered_ok_def heap' memo' nth_append)
  have 2: "stable s s'" using reg
    by (auto simp: stable_def heap' memo' nth_append)
  have "keeps g s s'"
    unfolding keeps_def by (intro conjI; simp add: 1 2 heap' memo' nth_append)
  then show ?thesis by (simp add: r heap')
qed

text \<open>What the three insertion functions leave behind.\<close>

lemma Memo_effect:
  "registered_ok st \<Longrightarrow> g < length (groups (memo st)) \<Longrightarrow>
     \<exists>r st'. MakeGroupExpression expr st = ok (r, st') \<and> keeps g st st' \<and>
              length (heap st) \<le> r \<and> r < length (heap st') \<and>
              gexpr_group (heap st' ! r) = None \<and> gop (heap st' ! r) = Op_of expr \<and>
              list_all2 (recorded st') (Children expr) (child_groups (heap st' ! r))"
  "registered_ok st \<Longrightarrow> g < length (groups (memo st)) \<Longrightarrow>
     \<exists>gs st'. MemoTransformedChildren exprs st = ok (gs, st') \<and> keeps g st st' \<and>
               list_all2 (recorded st') exprs gs"
  "registered_ok st \<Longrightarrow> g < length (groups (memo st)) \<Longrightarrow>
     \<exists>cg st'. MemoTransformedExpression expr st = ok (cg, st') \<and> keeps g st st' \<and>
               recorded st' expr cg"
proof (induction expr st and exprs st and expr st
    rule: MakeGroupExpression_MemoTransformedChildren_MemoTransformedExpression.induct)
  case (1 opr kids st)
  from "1.IH" [OF "1.prems"] obtain cgs s where
    kids: "MemoTransformedChildren kids st = ok (cgs, s)" and k: "keeps g st s"
    and rec: "list_all2 (recorded s) kids cgs"
    by blast
  define ge where "ge = \<lparr>gop = opr, child_groups = cgs, gexpr_group = None,
      lowest_cost_table = []\<rparr>"
  obtain r s' where a: "alloc ge s = (r, s')"
    by (cases "alloc ge s") auto
  from k have oks: "registered_ok s" by (simp add: keeps_def)
  from alloc_keeps [OF oks a, of g] have k': "keeps g s s'" and r: "r = length (heap s)"
    and l: "length (heap s') = Suc (length (heap s))" and at: "heap s' ! r = ge"
    by auto
  from k have le: "length (heap st) \<le> length (heap s)" by (simp add: keeps_def stable_def)
  from k' have "stable s s'" by (simp add: keeps_def)
  with rec have rec': "list_all2 (recorded s') kids cgs"
    by (auto elim!: list.rel_mono_strong intro: recorded_mono)
  have run: "MakeGroupExpression (OpExpression opr kids) st = ok (r, s')"
    using kids a by (simp add: ge_def)
  from run keeps_trans [OF k k'] r l le at rec' show ?case
    by (simp add: ge_def)
next
  case (2 st)
  then show ?case by (simp add: keeps_refl)
next
  case (3 child rest st)
  from "3.IH"(1) [OF "3.prems"] obtain cg s where
    c: "MemoTransformedExpression child st = ok (cg, s)" and k: "keeps g st s"
    and rc: "recorded s child cg"
    by blast
  from k "3.prems" have p: "registered_ok s" "g < length (groups (memo s))"
    by (auto simp: keeps_def)
  from "3.IH"(2) [OF p] obtain gs s' where
    r: "MemoTransformedChildren rest s = ok (gs, s')" and k': "keeps g s s'"
    and rr: "list_all2 (recorded s') rest gs"
    by auto
  from k' have "stable s s'" by (simp add: keeps_def)
  from recorded_mono [OF this rc] have "recorded s' child cg" .
  with c r keeps_trans [OF k k'] rr show ?case by simp
next
  case (4 expr st)
  from "4.IH" [OF "4.prems"] obtain r s where
    m: "MakeGroupExpression expr st = ok (r, s)" and k: "keeps g st s"
    and lo: "length (heap st) \<le> r" and hi: "r < length (heap s)"
    and fresh: "gexpr_group (heap s ! r) = None" and opr: "gop (heap s ! r) = Op_of expr"
    and rec: "list_all2 (recorded s) (Children expr) (child_groups (heap s ! r))"
    by blast
  from k "4.prems" have p: "registered_ok s" "g < length (groups (memo s))"
    by (auto simp: keeps_def)
  from InsertExpression_effect [OF p(1) hi fresh p(2), of None] obtain new s' where
    i: "InsertExpression r None s = ok (new, s')" and post: "insert_post g None r s new s'"
    by auto
  from post have e: "registered_ok s'" "stable s s'" "length (heap s') = length (heap s)"
      "\<forall>x<length (heap s). x \<noteq> r \<longrightarrow> heap s' ! x = heap s ! x"
      "length (groups (memo s)) \<le> length (groups (memo s'))"
      "expressions (groups (memo s') ! g) = expressions (groups (memo s) ! g)"
    by (simp_all add: insert_post_def)
  from post obtain h where h: "gexpr_group (heap s' ! r) = Some h"
    and root: "case gop (heap s ! r) of
                 LeafOperator g0 \<Rightarrow> h = g0
               | Operator n c p q \<Rightarrow>
                   (\<exists>r0\<in>set (group_expressions (memo s')).
                      r0 < length (heap s') \<and> gop (heap s' ! r0) = gop (heap s ! r) \<and>
                      child_groups (heap s' ! r0) = child_groups (heap s ! r) \<and>
                      gexpr_group (heap s' ! r0) = Some h)"
    by (auto simp: insert_post_def)
  from rec e(2) have rec': "list_all2 (recorded s') (Children expr) (child_groups (heap s ! r))"
    by (auto elim!: list.rel_mono_strong intro: recorded_mono)
  have rd: "recorded s' expr h"
  proof (cases expr)
    case (OpExpression o1 kids)
    with root opr rec' show ?thesis
      by (cases o1) auto
  qed
  from k have le: "length (heap st) \<le> length (heap s)" by (simp add: keeps_def stable_def)
  have k2: "keeps g st s'"
  proof -
    from k e(2) have 1: "stable st s'" by (auto simp: keeps_def intro: stable_trans)
    have 2: "\<forall>x<length (heap st). heap s' ! x = heap st ! x"
    proof (intro allI impI)
      fix x assume x: "x < length (heap st)"
      with lo le have "x < length (heap s)" "x \<noteq> r" by auto
      with e(4) have "heap s' ! x = heap s ! x" by simp
      with k x show "heap s' ! x = heap st ! x" by (simp add: keeps_def)
    qed
    from k e 1 2 show ?thesis by (simp add: keeps_def)
  qed
  from m i h k2 rd show ?case by simp
qed

lemma RecordTransformedExpression_effect:
  assumes ok: "registered_ok st" and g: "g < length (groups (memo st))"
  shows "\<exists>new r st'. RecordTransformedExpression expr (Some g) st = ok (new, r, st') \<and>
           record_post g expr st new r st'"
proof -
  from Memo_effect(1) [OF ok g] obtain r s where
    m: "MakeGroupExpression expr st = ok (r, s)" and k: "keeps g st s"
    and lo: "length (heap st) \<le> r" and hi: "r < length (heap s)"
    and fresh: "gexpr_group (heap s ! r) = None" and opr: "gop (heap s ! r) = Op_of expr"
    and rec: "list_all2 (recorded s) (Children expr) (child_groups (heap s ! r))"
    by blast
  from k g have p: "registered_ok s" "g < length (groups (memo s))"
    by (auto simp: keeps_def)
  from InsertExpression_effect [OF p(1) hi fresh p(2), of "Some g"] obtain new s' where
    i: "InsertExpression r (Some g) s = ok (new, s')" and post: "insert_post g (Some g) r s new s'"
    by auto
  from post have e: "registered_ok s'" "stable s s'" "length (heap s') = length (heap s)"
      "\<forall>x<length (heap s). x \<noteq> r \<longrightarrow> heap s' ! x = heap s ! x"
      "gop (heap s' ! r) = gop (heap s ! r)"
      "length (groups (memo s)) \<le> length (groups (memo s'))"
      "expressions (groups (memo s') ! g) =
         expressions (groups (memo s) ! g) @ (if new then [r] else [])"
      "new \<longrightarrow> gexpr_group (heap s' ! r) = Some g"
    by (simp_all add: insert_post_def)
  from post obtain h where h: "gexpr_group (heap s' ! r) = Some h"
    and root: "case gop (heap s ! r) of
                 LeafOperator g0 \<Rightarrow> h = g0
               | Operator n c p q \<Rightarrow>
                   (\<exists>r0\<in>set (group_expressions (memo s')).
                      r0 < length (heap s') \<and> gop (heap s' ! r0) = gop (heap s ! r) \<and>
                      child_groups (heap s' ! r0) = child_groups (heap s ! r) \<and>
                      gexpr_group (heap s' ! r0) = Some h)"
    by (auto simp: insert_post_def)
  from rec e(2) have rec': "list_all2 (recorded s') (Children expr) (child_groups (heap s ! r))"
    by (auto elim!: list.rel_mono_strong intro: recorded_mono)
  have rd: "recorded s' expr h"
  proof (cases expr)
    case (OpExpression o1 kids)
    with root opr rec' show ?thesis
      by (cases o1) auto
  qed
  from k have le: "length (heap st) \<le> length (heap s)" by (simp add: keeps_def stable_def)
  from k e(2) have 1: "stable st s'" by (auto simp: keeps_def intro: stable_trans)
  have 2: "\<forall>x<length (heap st). heap s' ! x = heap st ! x"
  proof (intro allI impI)
    fix x assume x: "x < length (heap st)"
    with lo le have "x < length (heap s)" "x \<noteq> r" by auto
    with e(4) have "heap s' ! x = heap s ! x" by simp
    with k x show "heap s' ! x = heap st ! x" by (simp add: keeps_def)
  qed
  from k e(6) have 3: "length (groups (memo st)) \<le> length (groups (memo s'))"
    by (simp add: keeps_def)
  from k e(7) have 4: "expressions (groups (memo s') ! g) =
                        expressions (groups (memo st) ! g) @ (if new then [r] else [])"
    by (simp add: keeps_def)
  from hi e(3) have 5: "r < length (heap s')" by simp
  from e(5) opr have 6: "gop (heap s' ! r) = Op_of expr" by simp
  from rd have 7: "\<exists>h. recorded s' expr h" ..
  have "record_post g expr st new r s'"
    unfolding record_post_def using e(1) 1 2 3 4 lo 5 6 e(8) 7
    by (intro conjI)
  moreover from m i have "RecordTransformedExpression expr (Some g) st = ok (new, r, s')"
    by (simp add: RecordTransformedExpression_def)
  ultimately show ?thesis by blast
qed

lemma record_all_effect:
  "registered_ok st \<Longrightarrow> g < length (groups (memo st)) \<Longrightarrow>
     \<exists>reports st'. record_all (Some g) trees st = ok (reports, st') \<and>
                    record_all_post g trees st reports st'"
proof (induction trees arbitrary: st)
  case Nil
  then show ?case by (simp add: record_all_post_def stable_refl)
next
  case (Cons tree trees)
  from RecordTransformedExpression_effect [OF Cons.prems, of tree] obtain new r s where
    run1: "RecordTransformedExpression tree (Some g) st = ok (new, r, s)"
    and p1: "record_post g tree st new r s"
    by blast
  from p1 have a: "registered_ok s" "stable st s"
      "\<forall>x<length (heap st). heap s ! x = heap st ! x"
      "length (groups (memo st)) \<le> length (groups (memo s))"
      "expressions (groups (memo s) ! g) =
         expressions (groups (memo st) ! g) @ (if new then [r] else [])"
      "length (heap st) \<le> r" "r < length (heap s)" "gop (heap s ! r) = Op_of tree"
      "new \<longrightarrow> gexpr_group (heap s ! r) = Some g" "\<exists>h. recorded s tree h"
    by (simp_all add: record_post_def)
  from a(4) Cons.prems(2) have g': "g < length (groups (memo s))" by simp
  from Cons.IH [OF a(1) g'] obtain reports s' where
    run2: "record_all (Some g) trees s = ok (reports, s')"
    and p2: "record_all_post g trees s reports s'"
    by blast
  from p2 have b: "length reports = length trees" "registered_ok s'" "stable s s'"
      "\<forall>x<length (heap s). heap s' ! x = heap s ! x"
      "length (groups (memo s)) \<le> length (groups (memo s'))"
      "expressions (groups (memo s') ! g) =
         expressions (groups (memo s) ! g) @ map snd (filter fst reports)"
      "\<forall>i<length trees.
         length (heap s) \<le> snd (reports ! i) \<and> snd (reports ! i) < length (heap s') \<and>
         gop (heap s' ! snd (reports ! i)) = Op_of (trees ! i) \<and>
         (fst (reports ! i) \<longrightarrow> gexpr_group (heap s' ! snd (reports ! i)) = Some g)"
      "\<forall>t\<in>set trees. \<exists>h. recorded s' t h"
    by (simp_all add: record_all_post_def)
  from b(3) have le2: "length (heap s) \<le> length (heap s')" by (simp add: stable_def)
  from a(6) a(7) have le1: "length (heap st) \<le> length (heap s)" by simp
  have run: "record_all (Some g) (tree # trees) st = ok ((new, r) # reports, s')"
    using run1 run2 by simp
  have 1: "length ((new, r) # reports) = length (tree # trees)" using b(1) by simp
  have 2: "stable st s'" using a(2) b(3) by (rule stable_trans)
  have 3: "\<forall>x<length (heap st). heap s' ! x = heap st ! x"
    using a(3) b(4) le1 by auto
  have 4: "length (groups (memo st)) \<le> length (groups (memo s'))"
    using a(4) b(5) by simp
  have 5: "expressions (groups (memo s') ! g) =
             expressions (groups (memo st) ! g) @ map snd (filter fst ((new, r) # reports))"
    using a(5) b(6) by simp
  have 6: "\<forall>i<length (tree # trees).
             length (heap st) \<le> snd (((new, r) # reports) ! i) \<and>
             snd (((new, r) # reports) ! i) < length (heap s') \<and>
             gop (heap s' ! snd (((new, r) # reports) ! i)) = Op_of ((tree # trees) ! i) \<and>
             (fst (((new, r) # reports) ! i) \<longrightarrow>
                gexpr_group (heap s' ! snd (((new, r) # reports) ! i)) = Some g)"
  proof (intro allI impI)
    fix i assume i: "i < length (tree # trees)"
    show "length (heap st) \<le> snd (((new, r) # reports) ! i) \<and>
          snd (((new, r) # reports) ! i) < length (heap s') \<and>
          gop (heap s' ! snd (((new, r) # reports) ! i)) = Op_of ((tree # trees) ! i) \<and>
          (fst (((new, r) # reports) ! i) \<longrightarrow>
             gexpr_group (heap s' ! snd (((new, r) # reports) ! i)) = Some g)"
    proof (cases i)
      case 0
      from a(7) b(4) have "heap s' ! r = heap s ! r" by simp
      with 0 a(6) a(7) a(8) a(9) le2 show ?thesis by simp
    next
      case (Suc j)
      with i have "j < length trees" by simp
      with b(7) have "length (heap s) \<le> snd (reports ! j) \<and> snd (reports ! j) < length (heap s') \<and>
         gop (heap s' ! snd (reports ! j)) = Op_of (trees ! j) \<and>
         (fst (reports ! j) \<longrightarrow> gexpr_group (heap s' ! snd (reports ! j)) = Some g)"
        by simp
      with Suc le1 show ?thesis by simp
    qed
  qed
  have 7: "\<forall>t\<in>set (tree # trees). \<exists>h. recorded s' t h"
    using a(10) b(8) recorded_mono [OF b(3)] by auto
  have "record_all_post g (tree # trees) st ((new, r) # reports) s'"
    unfolding record_all_post_def using 1 b(2) 2 3 4 5 6 7 by (intro conjI)
  with run show ?case by blast
qed

lemma result_cases:
  obtains "r = None" | e where "r = crash e" | x where "r = ok x"
proof (cases r)
  case None
  then show ?thesis using that by simp
next
  case (Some a)
  then show ?thesis using that by (cases a) auto
qed

lemma inner_loop_as_record_all:
  "foldM (\<lambda>tplan (out, s1).
       bindR (RecordTransformedExpression tplan target s1)
         (\<lambda>(new_expression, new_gexpr, s2).
            ok (if new_expression then out @ [new_gexpr] else out, s2)))
     trees (out, s) =
   bindR (record_all target trees s)
     (\<lambda>(reports, s'). ok (out @ map snd (filter fst reports), s'))"
proof (induction trees arbitrary: out s)
  case Nil
  show ?case by simp
next
  case (Cons tree trees)
  show ?case
  proof (cases "RecordTransformedExpression tree target s" rule: result_cases)
    case 1
    then show ?thesis by simp
  next
    case (2 e)
    then show ?thesis by simp
  next
    case (3 x)
    obtain new r s1 where x: "x = (new, r, s1)" by (cases x)
    show ?thesis
      by (cases "record_all target trees s1" rule: result_cases)
         (auto simp: 3 x Cons.IH)
  qed
qed

lemma record_all_append:
  "record_all target (xs @ ys) s =
   bindR (record_all target xs s) (\<lambda>(r1, s1).
     bindR (record_all target ys s1) (\<lambda>(r2, s2). ok (r1 @ r2, s2)))"
proof (induction xs arbitrary: s)
  case Nil
  show ?case
    by (cases "record_all target ys s" rule: result_cases) auto
next
  case (Cons x xs)
  show ?case
  proof (cases "RecordTransformedExpression x target s" rule: result_cases)
    case 1
    then show ?thesis by simp
  next
    case (2 e)
    then show ?thesis by simp
  next
    case (3 y)
    obtain new r s1 where y: "y = (new, r, s1)" by (cases y)
    show ?thesis
    proof (cases "record_all target xs s1" rule: result_cases)
      case 1
      then show ?thesis by (simp add: 3 y Cons.IH)
    next
      case (2 e)
      then show ?thesis by (simp add: 3 y Cons.IH)
    next
      case (3 z)
      obtain r1 s2 where z: "z = (r1, s2)" by (cases z)
      show ?thesis
        by (cases "record_all target ys s2" rule: result_cases)
           (auto simp: \<open>RecordTransformedExpression x target s = ok y\<close> y 3 z Cons.IH)
    qed
  qed
qed

lemma outer_loop_as_record_all:
  assumes body: "\<And>plan out s. body plan (out, s) =
       (if check rl plan
        then bindR (record_all target (transform rl plan) s)
               (\<lambda>(reports, s'). ok (out @ map snd (filter fst reports), s'))
        else ok (out, s))"
  shows "foldM body plans (out, s) =
         bindR (record_all target (concat (map (transform rl) (filter (check rl) plans))) s)
           (\<lambda>(reports, s'). ok (out @ map snd (filter fst reports), s'))"
proof (induction plans arbitrary: out s)
  case Nil
  show ?case by simp
next
  case (Cons plan plans)
  show ?case
  proof (cases "check rl plan")
    case False
    then show ?thesis by (simp add: body Cons.IH)
  next
    case True
    show ?thesis
    proof (cases "record_all target (transform rl plan) s" rule: result_cases)
      case 1
      with True show ?thesis
        by (simp add: body record_all_append)
    next
      case (2 e)
      with True show ?thesis
        by (simp add: body record_all_append)
    next
      case (3 x)
      obtain r1 s1 where x: "x = (r1, s1)" by (cases x)
      show ?thesis
        by (cases "record_all target (concat (map (transform rl) (filter (check rl) plans))) s1"
              rule: result_cases)
           (auto simp: True body record_all_append 3 x Cons.IH)
    qed
  qed
qed

text \<open>The call as the recording of the transformed trees, one after the other.\<close>

lemma TransformExpression_as_record_all:
  assumes ge: "deref st gexpr = Some ge"
  shows "TransformExpression gexpr rl st =
         bindR (record_all (gexpr_group ge)
                  (concat (map (transform rl)
                     (filter (check rl) (expr_bindings st (match_pattern rl) gexpr)))) st)
           (\<lambda>(reports, s'). ok (map snd (filter fst reports), s'))"
proof -
  have "foldM (\<lambda>plan (output_plans, s).
              if check rl plan
              then foldM (\<lambda>tplan (out, s1).
                       bindR (RecordTransformedExpression tplan (gexpr_group ge) s1)
                         (\<lambda>(new_expression, new_gexpr, s2).
                            ok (if new_expression then out @ [new_gexpr] else out, s2)))
                     (transform rl plan) (output_plans, s)
              else ok (output_plans, s))
            (expr_bindings st (match_pattern rl) gexpr) ([], st) =
        bindR (record_all (gexpr_group ge)
                 (concat (map (transform rl)
                    (filter (check rl) (expr_bindings st (match_pattern rl) gexpr)))) st)
          (\<lambda>(reports, s'). ok ([] @ map snd (filter fst reports), s'))"
    by (rule outer_loop_as_record_all) (simp add: inner_loop_as_record_all)
  then show ?thesis
    unfolding TransformExpression_def ge option.case by simp
qed

text \<open>
  Claim C6. In a memo whose registered expressions all have their group, let \<open>gexpr\<close> be
  an expression of an existing group \<open>g\<close>. For every rule, \<^verbatim>\<open>TransformExpression\<close>
  returns, and its effect is that of recording each transformed tree of the rule, in
  order, with target group \<open>g\<close>: it returns exactly the expressions for which the insert
  reported a new expression, and these are exactly what the call has appended to the
  expressions of \<open>g\<close>. The expression made for each tree is an object allocated during
  the call that carries the operator of the tree, its group is \<open>g\<close> when it was reported
  new, and afterwards every transformed tree is recorded in the memo.
\<close>

theorem TransformExpression_records_each_tree:
  assumes ok: "registered_ok st" and ge: "deref st gexpr = Some ge"
    and grp: "gexpr_group ge = Some g" and g: "g < length (groups (memo st))"
  shows "\<exists>reports st'.
           record_all (Some g) (transformed_trees rl st gexpr) st = ok (reports, st') \<and>
           TransformExpression gexpr rl st = ok (map snd (filter fst reports), st') \<and>
           length reports = length (transformed_trees rl st gexpr) \<and>
           expressions (groups (memo st') ! g) =
             expressions (groups (memo st) ! g) @ map snd (filter fst reports) \<and>
           (\<forall>i<length (transformed_trees rl st gexpr).
              deref st' (snd (reports ! i)) \<noteq> None \<and> length (heap st) \<le> snd (reports ! i) \<and>
              gop (heap st' ! snd (reports ! i)) = Op_of (transformed_trees rl st gexpr ! i) \<and>
              (fst (reports ! i) \<longrightarrow> gexpr_group (heap st' ! snd (reports ! i)) = Some g)) \<and>
           (\<forall>t\<in>set (transformed_trees rl st gexpr). \<exists>h. recorded st' t h)"
proof -
  from record_all_effect [OF ok g, of "transformed_trees rl st gexpr"] obtain reports st' where
    run: "record_all (Some g) (transformed_trees rl st gexpr) st = ok (reports, st')"
    and post: "record_all_post g (transformed_trees rl st gexpr) st reports st'"
    by blast
  from TransformExpression_as_record_all [OF ge, of rl] run grp
  have tr: "TransformExpression gexpr rl st = ok (map snd (filter fst reports), st')"
    by (simp add: transformed_trees_def)
  from post have 1: "length reports = length (transformed_trees rl st gexpr)"
    and 2: "expressions (groups (memo st') ! g) =
              expressions (groups (memo st) ! g) @ map snd (filter fst reports)"
    and 3: "\<forall>i<length (transformed_trees rl st gexpr).
              length (heap st) \<le> snd (reports ! i) \<and> snd (reports ! i) < length (heap st') \<and>
              gop (heap st' ! snd (reports ! i)) = Op_of (transformed_trees rl st gexpr ! i) \<and>
              (fst (reports ! i) \<longrightarrow> gexpr_group (heap st' ! snd (reports ! i)) = Some g)"
    and 4: "\<forall>t\<in>set (transformed_trees rl st gexpr). \<exists>h. recorded st' t h"
    by (simp_all add: record_all_post_def)
  from 3 have 5: "\<forall>i<length (transformed_trees rl st gexpr).
              deref st' (snd (reports ! i)) \<noteq> None \<and> length (heap st) \<le> snd (reports ! i) \<and>
              gop (heap st' ! snd (reports ! i)) = Op_of (transformed_trees rl st gexpr ! i) \<and>
              (fst (reports ! i) \<longrightarrow> gexpr_group (heap st' ! snd (reports ! i)) = Some g)"
    by (simp add: deref_def)
  from run tr 1 2 5 4 show ?thesis by blast
qed

theorem TransformExpression_records_each_tree_witness:
  "registered_ok get_optimizer \<and> deref get_optimizer 0 = Some get_gexpr \<and>
   gexpr_group get_gexpr = Some 0 \<and> 0 < length (groups (memo get_optimizer)) \<and>
   transformed_trees get_to_scan get_optimizer 0 = [OpExpression scan_op []] \<and>
   TransformExpression 0 get_to_scan get_optimizer = ok ([1], scan_optimizer) \<and>
   (\<exists>reports st'.
      record_all (Some 0) (transformed_trees get_to_scan get_optimizer 0) get_optimizer =
        ok (reports, st') \<and>
      TransformExpression 0 get_to_scan get_optimizer = ok (map snd (filter fst reports), st') \<and>
      length reports = length (transformed_trees get_to_scan get_optimizer 0) \<and>
      expressions (groups (memo st') ! 0) =
        expressions (groups (memo get_optimizer) ! 0) @ map snd (filter fst reports) \<and>
      (\<forall>i<length (transformed_trees get_to_scan get_optimizer 0).
         deref st' (snd (reports ! i)) \<noteq> None \<and>
         length (heap get_optimizer) \<le> snd (reports ! i) \<and>
         gop (heap st' ! snd (reports ! i)) = Op_of (transformed_trees get_to_scan get_optimizer 0 ! i) \<and>
         (fst (reports ! i) \<longrightarrow> gexpr_group (heap st' ! snd (reports ! i)) = Some 0)) \<and>
      (\<forall>t\<in>set (transformed_trees get_to_scan get_optimizer 0). \<exists>h. recorded st' t h))"
proof -
  have a: "registered_ok get_optimizer"
    by (simp add: registered_ok_def get_optimizer_def get_gexpr_def)
  have b: "deref get_optimizer 0 = Some get_gexpr"
    by (simp add: deref_def get_optimizer_def)
  have c: "gexpr_group get_gexpr = Some 0"
    by (simp add: get_gexpr_def)
  have d: "0 < length (groups (memo get_optimizer))"
    by (simp add: get_optimizer_def)
  have t: "transformed_trees get_to_scan get_optimizer 0 = [OpExpression scan_op []]"
    by (simp add: transformed_trees_def get_to_scan_def get_optimizer_def deref_def
        get_gexpr_def get_op_def scan_op_def kind_matches_def)
  have e: "TransformExpression 0 get_to_scan get_optimizer = ok ([1], scan_optimizer)"
    by (simp add: TransformExpression_def RecordTransformedExpression_def scan_optimizer_def
        get_optimizer_def alloc_def InsertExpression_def deref_def get_op_def scan_op_def
        find_expression_def SetGroupID_def get_gexpr_def scan_gexpr_def get_group_def
        get_to_scan_def kind_matches_def AddExpression_def same_expression_def)
  from a b c d t e TransformExpression_records_each_tree [OF a b c d, of get_to_scan]
  show ?thesis by blast
qed

section \<open>The driver on a non-empty list\<close>

lemma same_operators_refl: "same_operators st st"
  by (simp add: same_operators_def)

lemma same_operators_trans:
  "same_operators a b \<Longrightarrow> same_operators b c \<Longrightarrow> same_operators a c"
  by (auto simp: same_operators_def)

lemma foldM_same_operators:
  assumes "\<And>x s s'. f x s = ok s' \<Longrightarrow> same_operators s s'"
    and "foldM f xs st = ok st'"
  shows "same_operators st st'"
  by (rule foldM_invariant [where P = "same_operators st", OF _ same_operators_refl assms(2)])
     (blast intro: same_operators_trans assms(1))

lemma SetGroupID_same_operators: "same_operators st (SetGroupID r g st)"
proof (cases "r < length (heap st)")
  case True
  then show ?thesis
    by (simp add: same_operators_def SetGroupID_def nth_list_update)
next
  case False
  then show ?thesis
    by (simp add: same_operators_def SetGroupID_def)
qed

lemma InsertExpression_same_operators:
  assumes "InsertExpression r target st = ok (new, st')"
  shows "same_operators st st'"
proof -
  from assms obtain h where "heap st' = heap (SetGroupID r h st)"
    by (auto simp: InsertExpression_def split: option.splits operator.splits if_splits)
  with SetGroupID_same_operators [of st r h] show ?thesis
    by (simp add: same_operators_def)
qed

lemma alloc_same_operators: "alloc ge st = (r, st') \<Longrightarrow> same_operators st st'"
  by (auto simp: alloc_def same_operators_def nth_append)

lemma Memo_same_operators:
  "\<forall>r st'. MakeGroupExpression expr st = ok (r, st') \<longrightarrow> same_operators st st'"
  "\<forall>gs st'. MemoTransformedChildren exprs st = ok (gs, st') \<longrightarrow> same_operators st st'"
  "\<forall>cg st'. MemoTransformedExpression expr st = ok (cg, st') \<longrightarrow> same_operators st st'"
proof (induction expr st and exprs st and expr st
    rule: MakeGroupExpression_MemoTransformedChildren_MemoTransformedExpression.induct)
  case (1 opr kids st)
  show ?case
  proof (intro allI impI)
    fix r st'
    assume "MakeGroupExpression (OpExpression opr kids) st = ok (r, st')"
    then obtain cgs s where k: "MemoTransformedChildren kids st = ok (cgs, s)"
      and a: "alloc \<lparr>gop = opr, child_groups = cgs, gexpr_group = None,
                lowest_cost_table = []\<rparr> s = (r, st')"
      by (auto simp: bindR_ok_iff)
    from "1.IH" k have "same_operators st s" by blast
    from this alloc_same_operators [OF a] show "same_operators st st'"
      by (rule same_operators_trans)
  qed
next
  case (2 st)
  show ?case by (simp add: same_operators_refl)
next
  case (3 child rest st)
  show ?case
  proof (intro allI impI)
    fix gs st'
    assume "MemoTransformedChildren (child # rest) st = ok (gs, st')"
    then obtain cg s gs' where c: "MemoTransformedExpression child st = ok (cg, s)"
      and r: "MemoTransformedChildren rest s = ok (gs', st')"
      by (auto simp: bindR_ok_iff)
    from "3.IH"(1) c have 1: "same_operators st s" by blast
    from "3.IH"(2) r have 2: "same_operators s st'" by blast
    from 1 2 show "same_operators st st'" by (rule same_operators_trans)
  qed
next
  case (4 expr st)
  show ?case
  proof (intro allI impI)
    fix cg st'
    assume "MemoTransformedExpression expr st = ok (cg, st')"
    then obtain r s new where m: "MakeGroupExpression expr st = ok (r, s)"
      and i: "InsertExpression r None s = ok (new, st')"
      by (auto simp: bindR_ok_iff split: option.splits)
    from "4.IH" m have 1: "same_operators st s" by blast
    from 1 InsertExpression_same_operators [OF i] show "same_operators st st'"
      by (rule same_operators_trans)
  qed
qed

lemma RecordTransformedExpression_same_operators:
  assumes "RecordTransformedExpression expr target st = ok (new, r, st')"
  shows "same_operators st st'"
proof -
  from assms obtain s where m: "MakeGroupExpression expr st = ok (r, s)"
    and i: "InsertExpression r target s = ok (new, st')"
    by (auto simp: RecordTransformedExpression_def bindR_ok_iff)
  from Memo_same_operators(1) m have "same_operators st s" by blast
  from this InsertExpression_same_operators [OF i] show ?thesis
    by (rule same_operators_trans)
qed

lemma TransformExpression_same_operators:
  assumes "TransformExpression gexpr rl st = ok (out, st')"
  shows "same_operators st st'"
proof -
  from assms obtain ge :: group_expression where
    loop: "foldM (\<lambda>plan (output_plans, s).
              if check rl plan
              then foldM (\<lambda>tplan (out, s1).
                       bindR (RecordTransformedExpression tplan (gexpr_group ge) s1)
                         (\<lambda>(new_expression, new_gexpr, s2).
                            ok (if new_expression then out @ [new_gexpr] else out, s2)))
                     (transform rl plan) (output_plans, s)
              else ok (output_plans, s))
            (expr_bindings st (match_pattern rl) gexpr) ([], st) = ok (out, st')"
    by (auto simp: TransformExpression_def split: option.splits)
  have inner: "same_operators (snd p) (snd p')"
    if "foldM (\<lambda>tplan (out, s1).
                 bindR (RecordTransformedExpression tplan (gexpr_group ge) s1)
                   (\<lambda>(new_expression, new_gexpr, s2).
                      ok (if new_expression then out @ [new_gexpr] else out, s2)))
          trees p = ok p'" for trees p p'
    by (rule foldM_invariant [where P = "\<lambda>q. same_operators (snd p) (snd q)",
          OF _ same_operators_refl that])
       (auto simp: bindR_ok_iff dest!: RecordTransformedExpression_same_operators
          intro: same_operators_trans)
  have "same_operators st (snd (out, st'))"
    by (rule foldM_invariant [where P = "\<lambda>q. same_operators st (snd q)", OF _ _ loop])
       (auto split: if_splits dest!: inner intro: same_operators_trans same_operators_refl)
  then show ?thesis by simp
qed

lemma SetFlag_same_operators:
  "SetExplorationFlag g st = ok st' \<Longrightarrow> same_operators st st'"
  "SetImplementationFlag g st = ok st' \<Longrightarrow> same_operators st st'"
  by (auto simp: SetExplorationFlag_def SetImplementationFlag_def same_operators_def
      split: option.splits)

lemma Explore_same_operators:
  "(\<forall>g st st'. ExploreGroup n g st = ok st' \<longrightarrow> same_operators st st') \<and>
   (\<forall>gexpr st st'. ExploreExpression n gexpr st = ok st' \<longrightarrow> same_operators st st')"
proof (induction n)
  case 0
  show ?case by simp
next
  case (Suc n)
  from Suc.IH have ihg: "\<And>g st st'. ExploreGroup n g st = ok st' \<Longrightarrow> same_operators st st'"
    and ihe: "\<And>gexpr st st'. ExploreExpression n gexpr st = ok st' \<Longrightarrow> same_operators st st'"
    by blast+
  have grp: "same_operators st st'" if run: "ExploreGroup (Suc n) g st = ok st'" for g st st'
  proof -
    from run obtain grp :: group and s where
      loop: "foldM (\<lambda>gexpr s. ExploreExpression n gexpr s) (expressions grp) st = ok s"
      and flag: "SetExplorationFlag g s = ok st'"
      by (auto simp: bindR_ok_iff split: option.splits)
    from foldM_same_operators [OF ihe loop] SetFlag_same_operators(1) [OF flag]
    show ?thesis by (rule same_operators_trans)
  qed
  have ex: "same_operators st st'" if run: "ExploreExpression (Suc n) gexpr st = ok st'"
    for gexpr st st'
  proof -
    from run obtain ge :: group_expression and s where
      rules: "foldM (\<lambda>rl s.
                 bindR (TransformExpression gexpr rl s) (\<lambda>(candidates, s1).
                   foldM (\<lambda>candidate s2. ExploreExpression n candidate s2) candidates s1))
               (logical_transformation_rules st) st = ok s"
      and kids: "foldM (\<lambda>child_id s.
                   case GetGroupByID (memo s) child_id of
                     None \<Rightarrow> crash InvalidGroup
                   | Some cg \<Rightarrow> if \<not> has_explored cg then ExploreGroup n child_id s else ok s)
                 (child_groups ge) s = ok st'"
      by (auto simp: bindR_ok_iff split: option.splits if_splits)
    have 1: "same_operators st s"
    proof (rule foldM_same_operators [OF _ rules])
      fix rl a b
      assume "bindR (TransformExpression gexpr rl a) (\<lambda>(candidates, s1).
                foldM (\<lambda>candidate s2. ExploreExpression n candidate s2) candidates s1) = ok b"
      then obtain cands s1 where t: "TransformExpression gexpr rl a = ok (cands, s1)"
        and c: "foldM (\<lambda>candidate s2. ExploreExpression n candidate s2) cands s1 = ok b"
        by (auto simp: bindR_ok_iff)
      from TransformExpression_same_operators [OF t] foldM_same_operators [OF ihe c]
      show "same_operators a b" by (rule same_operators_trans)
    qed
    have 2: "same_operators s st'"
      by (rule foldM_same_operators [OF _ kids])
         (auto split: option.splits if_splits dest: ihg simp: same_operators_refl)
    from 1 2 show ?thesis by (rule same_operators_trans)
  qed
  from grp ex show ?case by blast
qed

lemma ImplementGroup_same_operators:
  assumes "ImplementGroup n g st = ok st'"
  shows "same_operators st st'"
proof -
  from assms obtain grp :: group and s where
    loop: "foldM (\<lambda>gexpr s.
                    case deref s gexpr of
                      None \<Rightarrow> crash NullDereference
                    | Some ge \<Rightarrow> if IsPhysical (gop ge) then ExploreExpression n gexpr s else ok s)
             (expressions grp) st = ok s"
    and flag: "SetImplementationFlag g s = ok st'"
    by (auto simp: ImplementGroup_def bindR_ok_iff split: option.splits)
  have "same_operators st s"
    by (rule foldM_same_operators [OF _ loop])
       (auto split: option.splits if_splits simp: same_operators_refl
          dest: Explore_same_operators [THEN conjunct2, rule_format])
  from this SetFlag_same_operators(2) [OF flag] show ?thesis
    by (rule same_operators_trans)
qed

lemma logical_not_physical: "IsLogical opr \<Longrightarrow> \<not> IsPhysical opr"
  by (cases opr) auto

lemma ExploreExpression_ok_logical:
  "ExploreExpression n gexpr st = ok st' \<Longrightarrow>
     gexpr < length (heap st) \<and> IsLogical (gop (heap st ! gexpr))"
  by (cases n) (auto simp: deref_def bindR_ok_iff split: option.splits if_splits)

lemma OptimizeExpression_ok_physical:
  "OptimizeExpression cm n gexpr requirements st = ok st' \<Longrightarrow>
     gexpr < length (heap st) \<and> IsPhysical (gop (heap st ! gexpr))"
  by (cases n) (auto simp: deref_def split: option.splits if_splits)

lemma InsertExpression_new_group:
  assumes "InsertExpression r None st = ok (True, st')"
  shows "gexpr_group (heap st' ! r) = Some (length (groups (memo st))) \<and>
         groups (memo st') = groups (memo st) @ [new_group r]"
  using assms
  by (auto simp: InsertExpression_def SetGroupID_def deref_def
      split: option.splits operator.splits if_splits)

text \<open>
  After \<^verbatim>\<open>InsertQueryTree\<close> the root expression is alone in its group, which is the
  last group of the memo.
\<close>

lemma InsertQueryTree_root:
  assumes "InsertQueryTree convert tree st = ok (gexpr, s0)"
  shows "\<exists>root. gexpr_group (heap s0 ! gexpr) = Some root \<and>
           GetGroupByID (memo s0) root = Some (new_group gexpr)"
proof -
  from assms obtain s where
    i: "InsertExpression gexpr None s = ok (True, s0)"
    by (auto simp: InsertQueryTree_def RecordTransformedExpression_def bindR_ok_iff
        split: if_splits)
  from InsertExpression_new_group [OF i] show ?thesis
    by (simp add: GetGroupByID_def)
qed

lemma BuildPelotonPlanTree_never_ok:
  "BuildPelotonPlanTree convert props to_plan cm fuel (stmt # rest) st \<noteq> ok res"
proof
  assume run: "BuildPelotonPlanTree convert props to_plan cm fuel (stmt # rest) st = ok res"
  then obtain gexpr s0 where ins: "InsertQueryTree convert stmt st = ok (gexpr, s0)"
    by (auto simp: BuildPelotonPlanTree_def bindR_ok_iff)
  from InsertQueryTree_root [OF ins] obtain root where
    root: "gexpr_group (heap s0 ! gexpr) = Some root"
    and grp: "GetGroupByID (memo s0) root = Some (new_group gexpr)"
    by blast
  from run ins root obtain s1 s2 s3 where
    ex: "ExploreGroup fuel root s0 = ok s1"
    and im: "ImplementGroup fuel root s1 = ok s2"
    and op: "OptimizeExpression cm fuel gexpr (props stmt) s2 = ok s3"
    by (auto simp: BuildPelotonPlanTree_def bindR_ok_iff Let_def)
  from ex grp obtain n s where "ExploreExpression n gexpr s0 = ok s"
    by (cases fuel) (auto simp: bindR_ok_iff new_group_def)
  from ExploreExpression_ok_logical [OF this]
  have valid: "gexpr < length (heap s0)" and logical: "IsLogical (gop (heap s0 ! gexpr))"
    by auto
  from Explore_same_operators ex have "same_operators s0 s1" by blast
  from this ImplementGroup_same_operators [OF im] have "same_operators s0 s2"
    by (rule same_operators_trans)
  with valid have "gop (heap s2 ! gexpr) = gop (heap s0 ! gexpr)"
    by (simp add: same_operators_def)
  with OptimizeExpression_ok_physical [OF op] have "IsPhysical (gop (heap s0 ! gexpr))"
    by simp
  with logical_not_physical [OF logical] show False by simp
qed

text \<open>
  Claim C10. On a non-empty statement list the driver returns no plan, whatever the
  statements, the rules, the memo and the fuel. It inserts the tree of statement 0 and
  explores its root expression, which \<^verbatim>\<open>ExploreExpression\<close> asserts to be logical, and
  then calls \<^verbatim>\<open>OptimizeExpression\<close> on the same expression, which asserts it to be
  physical. On the single logical get the call ends at that assertion.
\<close>

theorem BuildPelotonPlanTree_returns_no_plan:
  "BuildPelotonPlanTree convert props to_plan cm fuel (stmt # rest) st \<noteq> ok res \<and>
   BuildPelotonPlanTree (\<lambda>q. OpExpression get_op []) (\<lambda>q. {}) (\<lambda>plan. plan) unit_cost 3 [q]
     empty_optimizer = crash AssertionFailed"
proof (rule conjI)
  show "BuildPelotonPlanTree convert props to_plan cm fuel (stmt # rest) st \<noteq> ok res"
    by (rule BuildPelotonPlanTree_never_ok)
  show "BuildPelotonPlanTree (\<lambda>q. OpExpression get_op []) (\<lambda>q. {}) (\<lambda>plan. plan) unit_cost 3 [q]
          empty_optimizer = crash AssertionFailed"
    by (rule BuildPelotonPlanTree_single_get)
qed

end
